theory Spec2Isabelle
  imports Main "HOL-Library.AList"
begin

section \<open>Data model (types.ts, errors.ts, config/index.ts)\<close>

text \<open>
  Conventions of the embedding.
  \<^item> An ISO-8601 timestamp string written by \<^verbatim>\<open>Date.prototype.toISOString\<close> is
    represented by the epoch-millisecond integer it denotes; \<^verbatim>\<open>new Date(s).getTime()\<close> on
    such a string is then the identity.
  \<^item> JavaScript numbers that the program uses as counters, sizes and epoch milliseconds are
    \<open>int\<close>; a \<^verbatim>\<open>NaN\<close> time value is \<open>None\<close>.
  \<^item> \<^verbatim>\<open>string | null\<close> and optional properties are \<open>option\<close>.
  \<^item> A thrown exception is the \<open>Inl\<close> branch of a sum; every effectful operation returns
    its result together with the world it leaves behind, so that effects performed before a
    throw persist.
\<close>

datatype MediaType = Photo | Video | Gif

record TweetMedia =
  media_id :: string
  media_url :: string
  media_type :: MediaType

record MediaTweet =
  tweet_id :: string
  tweet_username :: string
  tweet_text :: string
  tweetUrl :: string
  postedAt :: string
  media :: "TweetMedia list"

datatype direction = Newer | Older

record ListTweetsWithMediaParams =
  p_username :: string
  p_cursor :: "string option"
  p_direction :: direction
  p_limitPages :: int

record ListTweetsWithMediaResult =
  tweets :: "MediaTweet list"
  nextCursor :: "string option"

record LocalMediaFile =
  mediaKey :: string
  mediaUrl :: string
  mediaType :: MediaType
  path :: string
  fileSizeBytes :: int

datatype media_status = Uploaded | SkippedOversize

record StoredMediaRecord =
  rec_mediaKey :: string
  rec_tweetId :: string
  rec_username :: string
  rec_mediaUrl :: string
  rec_mediaType :: MediaType
  rec_uploadedAt :: int
  rec_telegramMessageIds :: "string list"
  rec_status :: media_status

record AccountState =
  username :: string
  latestSeenTweetId :: "string option"
  backfillCursor :: "string option"
  backfillDone :: bool
  rateLimitedUntil :: "int option"
  updatedAt :: int

text \<open>The argument of \<^verbatim>\<open>upsertAccountState\<close>: \<^verbatim>\<open>updatedAt\<close> is optional.\<close>

record AccountStateInput =
  in_username :: string
  in_latestSeenTweetId :: "string option"
  in_backfillCursor :: "string option"
  in_backfillDone :: bool
  in_rateLimitedUntil :: "int option"
  in_updatedAt :: "int option"

text \<open>Rows of the three SQLite tables created by \<^verbatim>\<open>SqliteStateRepo.init\<close>.\<close>

record account_state_row =
  row_username :: string
  latest_seen_tweet_id :: "string option"
  backfill_cursor :: "string option"
  backfill_done :: int
  rate_limited_until :: "int option"
  updated_at :: int

record job_lock_row =
  locked_until :: int
  holder_id :: string

record AccountRunSummary =
  sum_username :: string
  sum_uploaded :: int
  sum_skipped :: int
  sum_failed :: int
  incrementalTweetsSelected :: int
  backfillTweetsSelected :: int
  incrementalTweetsCandidates :: int
  backfillTweetsCandidates :: int
  sum_backfillDone :: bool
  cooldownActive :: bool
  cooldownUntil :: "int option"

record RunSummary =
  startedAt :: int
  finishedAt :: int
  skippedByLock :: bool
  accounts :: "AccountRunSummary list"

text \<open>\<^verbatim>\<open>ProcessTweetResult\<close> and \<^verbatim>\<open>PipelineTotals\<close> are the same structural type.\<close>

record ProcessTweetResult =
  uploaded :: int
  skipped :: int
  failed :: int

type_synonym PipelineTotals = ProcessTweetResult

text \<open>
  The configuration object read by the pipeline. \<^verbatim>\<open>twitterRateLimitCooldownSeconds\<close> is read
  by \<^verbatim>\<open>SyncPipeline.computeCooldownUntil\<close>; an object without that property yields
  \<^verbatim>\<open>undefined\<close> there, which is \<open>None\<close>.
\<close>

record AppConfig =
  twitterUsers :: "string list"
  twitterCookies :: "string list"
  telegramApiId :: int
  telegramApiHash :: string
  telegramStringSession :: string
  timezone :: string
  stateDbPath :: string
  backfillPagesPerRun :: int
  maxMediaPerRun :: int
  downloadTmpDir :: string
  jobLockTtlSeconds :: int
  maxUploadVideoBytes :: int
  twitterRateLimitCooldownSeconds :: "int option"

subsection \<open>Errors\<close>

text \<open>
  Thrown values: the typed \<^verbatim>\<open>TwitterRateLimitError(message, hosts)\<close>, a plain
  \<^verbatim>\<open>Error(message)\<close>, the built-in \<^verbatim>\<open>RangeError\<close> of \<^verbatim>\<open>toISOString\<close>, and the
  validation error of the configuration schema.
\<close>

datatype error =
    TwitterRateLimitError string "string list"
  | Error string
  | RangeError string
  | ZodError string

fun message :: "error \<Rightarrow> string" where
  "message (TwitterRateLimitError m hosts) = m"
| "message (Error m) = m"
| "message (RangeError m) = m"
| "message (ZodError m) = m"

text \<open>\<^verbatim>\<open>src/errors.ts\<close>, the module that \<^verbatim>\<open>core/pipeline.ts\<close> imports as \<^verbatim>\<open>../errors.js\<close>:
  \<^verbatim>\<open>return error instanceof TwitterRateLimitError;\<close>\<close>

fun isTwitterRateLimitError :: "error \<Rightarrow> bool" where
  "isTwitterRateLimitError (TwitterRateLimitError m hosts) = True"
| "isTwitterRateLimitError (Error m) = False"
| "isTwitterRateLimitError (RangeError m) = False"
| "isTwitterRateLimitError (ZodError m) = False"

subsection \<open>The outside world\<close>

datatype event =
    EvListTweets ListTweetsWithMediaParams
  | EvDownload string string
  | EvRemoveFile string
  | EvConnect
  | EvSendFile "string list" string
  | EvSendText string

record http_response =
  resp_ok :: bool
  resp_status :: int
  resp_has_body :: bool

datatype sendFile_result = OneMessage "int option" | Messages "int option list"

text \<open>
  Everything the program cannot decide by itself is an oracle indexed by a tick that every
  external call advances: the clock, the source adapter, HTTP, the file system and the sink.
  \<open>sha256_hex\<close>, \<open>Number_of\<close>, \<open>iso_text\<close> and \<open>iso_of_date_string\<close> stand for the
  built-ins \<^verbatim>\<open>createHash("sha256")...digest("hex")\<close>, \<^verbatim>\<open>Number\<close> on a post id, the text of
  a stored timestamp, and \<^verbatim>\<open>new Date(s).toISOString()\<close> on a source-supplied string
  (\<open>None\<close> when the date is invalid).
\<close>

record env =
  sha256_hex :: "string \<Rightarrow> string"
  Number_of :: "string \<Rightarrow> int"
  iso_text :: "int \<Rightarrow> string"
  iso_of_date_string :: "string \<Rightarrow> string option"
  pid :: nat
  now_at :: "nat \<Rightarrow> int"
  listTweetsWithMedia_at :: "nat \<Rightarrow> ListTweetsWithMediaParams \<Rightarrow> error + ListTweetsWithMediaResult"
  fetch_at :: "nat \<Rightarrow> string \<Rightarrow> error + http_response"
  write_at :: "nat \<Rightarrow> string \<Rightarrow> error + int"
  rm_at :: "nat \<Rightarrow> string \<Rightarrow> error + unit"
  connect_at :: "nat \<Rightarrow> error + bool"
  sendFile_at :: "nat \<Rightarrow> string list \<Rightarrow> string \<Rightarrow> error + sendFile_result"
  sendMessage_at :: "nat \<Rightarrow> string \<Rightarrow> error + unit"
  disconnect_at :: "nat \<Rightarrow> error + unit"

text \<open>
  The mutable world: the three tables of the state database, the sink client's
  \<^verbatim>\<open>connected\<close> flag, the trace of external calls, and the oracle tick.
  \<open>media_registry\<close> is the list of rows of the table, so that the uniqueness of
  \<^verbatim>\<open>media_key\<close> is a property to prove and not one of the type.
\<close>

record world =
  account_state :: "string \<rightharpoonup> account_state_row"
  media_registry :: "StoredMediaRecord list"
  job_lock :: "string \<rightharpoonup> job_lock_row"
  tg_connected :: bool
  events :: "event list"
  tick :: nat

type_synonym 'a io = "world \<Rightarrow> (error + 'a) \<times> world"

definition Date_now :: "env \<Rightarrow> world \<Rightarrow> int \<times> world" where
  "Date_now E w = (now_at E (tick w), w\<lparr>tick := Suc (tick w)\<rparr>)"

text \<open>\<^verbatim>\<open>new Date(t).toISOString()\<close> throws a \<^verbatim>\<open>RangeError\<close> on an invalid date: a
  \<^verbatim>\<open>NaN\<close> time value, or one whose absolute value is beyond 8.64e15 ms.\<close>

definition toISOString :: "int option \<Rightarrow> error + int" where
  "toISOString t =
     (case t of
        None \<Rightarrow> Inl (RangeError ''Invalid time value'')
      | Some v \<Rightarrow>
          if \<bar>v\<bar> \<le> 8640000000000000 then Inr v
          else Inl (RangeError ''Invalid time value''))"

section \<open>State store (state/sqlite.ts)\<close>

definition nowIso :: "env \<Rightarrow> world \<Rightarrow> int \<times> world" where
  "nowIso E w = Date_now E w"

definition getAccountState :: "env \<Rightarrow> string \<Rightarrow> world \<Rightarrow> AccountState \<times> world" where
  "getAccountState E user w =
     (case account_state w user of
        None \<Rightarrow>
          (let (t, w1) = nowIso E w in
           (\<lparr>username = user, latestSeenTweetId = None, backfillCursor = None,
             backfillDone = False, rateLimitedUntil = None, updatedAt = t\<rparr>, w1))
      | Some row \<Rightarrow>
          (\<lparr>username = row_username row,
            latestSeenTweetId = latest_seen_tweet_id row,
            backfillCursor = backfill_cursor row,
            backfillDone = (backfill_done row = 1),
            rateLimitedUntil = rate_limited_until row,
            updatedAt = updated_at row\<rparr>, w))"

definition upsertAccountState :: "env \<Rightarrow> AccountStateInput \<Rightarrow> world \<Rightarrow> world" where
  "upsertAccountState E st w =
     (let (stamp, w1) = (case in_updatedAt st of Some t \<Rightarrow> (t, w) | None \<Rightarrow> nowIso E w) in
      w1\<lparr>account_state := (account_state w1)(in_username st \<mapsto>
            \<lparr>row_username = in_username st,
             latest_seen_tweet_id = in_latestSeenTweetId st,
             backfill_cursor = in_backfillCursor st,
             backfill_done = (if in_backfillDone st then 1 else 0),
             rate_limited_until = in_rateLimitedUntil st,
             updated_at = stamp\<rparr>)\<rparr>)"

definition isMediaUploaded :: "string \<Rightarrow> world \<Rightarrow> bool" where
  "isMediaUploaded key w = (key \<in> set (map rec_mediaKey (media_registry w)))"

text \<open>\<^verbatim>\<open>INSERT OR REPLACE\<close> on the primary key \<^verbatim>\<open>media_key\<close>: a row with the same key
  is deleted, then the new row is inserted.\<close>

definition markMediaUploaded :: "StoredMediaRecord \<Rightarrow> world \<Rightarrow> world" where
  "markMediaUploaded r w =
     w\<lparr>media_registry :=
         filter (\<lambda>x. rec_mediaKey x \<noteq> rec_mediaKey r) (media_registry w) @ [r]\<rparr>"

text \<open>
  \<^verbatim>\<open>acquireJobLock\<close>. The clock is read and the expiry formatted before the transaction
  starts; \<^verbatim>\<open>BEGIN IMMEDIATE\<close> ... \<^verbatim>\<open>COMMIT\<close> makes the read and the write of the row one
  step, which is what a state transformer is.
\<close>

definition acquireJobLock :: "env \<Rightarrow> string \<Rightarrow> string \<Rightarrow> int \<Rightarrow> bool io" where
  "acquireJobLock E jobName holderId ttlSeconds w =
     (let (now, w1) = Date_now E w in
      case toISOString (Some (now + ttlSeconds * 1000)) of
        Inl e \<Rightarrow> (Inl e, w1)
      | Inr lockUntil \<Rightarrow>
          (case job_lock w1 jobName of
             Some current \<Rightarrow>
               if locked_until current > now then (Inr False, w1)
               else (Inr True, w1\<lparr>job_lock := (job_lock w1)(jobName \<mapsto>
                       \<lparr>locked_until = lockUntil, holder_id = holderId\<rparr>)\<rparr>)
           | None \<Rightarrow>
               (Inr True, w1\<lparr>job_lock := (job_lock w1)(jobName \<mapsto>
                       \<lparr>locked_until = lockUntil, holder_id = holderId\<rparr>)\<rparr>)))"

definition releaseJobLock :: "string \<Rightarrow> string \<Rightarrow> world \<Rightarrow> world" where
  "releaseJobLock jobName holderId w =
     (case job_lock w jobName of
        Some current \<Rightarrow>
          if holder_id current = holderId
          then w\<lparr>job_lock := (job_lock w)(jobName := None)\<rparr> else w
      | None \<Rightarrow> w)"

section \<open>Utilities (utils/hash.ts, utils/retry.ts, utils/fs.ts)\<close>

text \<open>\<^verbatim>\<open>String(n)\<close> for a non-negative integer, and for an integer.\<close>

definition digit_char :: "nat \<Rightarrow> char" where
  "digit_char d = ''0123456789'' ! d"

function String_of_nat :: "nat \<Rightarrow> string" where
  "String_of_nat n =
     (if n < 10 then [digit_char n]
      else String_of_nat (n div 10) @ [digit_char (n mod 10)])"
  by pat_completeness auto
termination
  by (relation "measure (\<lambda>n. n)") auto

definition String_of_int :: "int \<Rightarrow> string" where
  "String_of_int i = (if i < 0 then ''-'' @ String_of_nat (nat (- i)) else String_of_nat (nat i))"

text \<open>\<^verbatim>\<open>Array.prototype.join\<close>.\<close>

fun join :: "string \<Rightarrow> string list \<Rightarrow> string" where
  "join sep [] = []"
| "join sep [x] = x"
| "join sep (x # y # ys) = x @ sep @ join sep (y # ys)"

definition makeMediaKey :: "env \<Rightarrow> string \<Rightarrow> string \<Rightarrow> string" where
  "makeMediaKey E tweetId url = sha256_hex E (tweetId @ ''::'' @ url)"

text \<open>
  \<^verbatim>\<open>withRetry(fn, {retries, ...})\<close>: the loop runs \<open>fn\<close> until it returns, or until
  attempt number \<open>retries\<close> has thrown, and then rethrows the last error. The waits between
  attempts have no effect on the world. With \<open>attempt > retries\<close> on entry the source throws
  \<^verbatim>\<open>undefined\<close>; that value is \<open>Error []\<close> here and no caller reaches it.
\<close>

function withRetry_loop :: "'a io \<Rightarrow> nat \<Rightarrow> nat \<Rightarrow> 'a io" where
  "withRetry_loop fn retries attempt w =
     (if attempt \<le> retries then
        (case fn w of
           (Inr v, w1) \<Rightarrow> (Inr v, w1)
         | (Inl e, w1) \<Rightarrow>
             if attempt = retries then (Inl e, w1)
             else withRetry_loop fn retries (Suc attempt) w1)
      else (Inl (Error []), w))"
  by pat_completeness auto
termination
  by (relation "measure (\<lambda>(fn, retries, attempt, w). Suc retries - attempt)") auto

definition withRetry :: "'a io \<Rightarrow> nat \<Rightarrow> 'a io" where
  "withRetry fn retries w = withRetry_loop fn retries 0 w"

text \<open>\<^verbatim>\<open>removeFileSafe\<close>: \<^verbatim>\<open>rm(path, {force: true})\<close>, which can still fail.\<close>

definition removeFileSafe :: "env \<Rightarrow> string \<Rightarrow> unit io" where
  "removeFileSafe E filePath w =
     (rm_at E (tick w) filePath,
      w\<lparr>events := events w @ [EvRemoveFile filePath], tick := Suc (tick w)\<rparr>)"

section \<open>Media downloader (core/downloader.ts)\<close>

definition extensionByType :: "MediaType \<Rightarrow> string" where
  "extensionByType t = (if t = Photo then ''.jpg'' else ''.mp4'')"

text \<open>\<^verbatim>\<open>path.join(dir, name)\<close> for a file name without separators.\<close>

definition path_join :: "string \<Rightarrow> string \<Rightarrow> string" where
  "path_join dir name = dir @ ''/'' @ name"

definition downloadMedia ::
  "env \<Rightarrow> string \<Rightarrow> string \<Rightarrow> MediaType \<Rightarrow> string \<Rightarrow> LocalMediaFile io" where
  "downloadMedia E key url mtype downloadDir w =
     (let outputPath = path_join downloadDir (key @ extensionByType mtype);
          w1 = w\<lparr>events := events w @ [EvDownload key url], tick := Suc (tick w)\<rparr>
      in case fetch_at E (tick w) url of
           Inl e \<Rightarrow> (Inl e, w1)
         | Inr response \<Rightarrow>
             if \<not> resp_ok response \<or> \<not> resp_has_body response then
               (Inl (Error (''Failed to download media ('' @
                            String_of_int (resp_status response) @ '')'')), w1)
             else
               (case write_at E (tick w) outputPath of
                  Inl e \<Rightarrow> (Inl e, w1)
                | Inr fsize \<Rightarrow>
                    (Inr \<lparr>mediaKey = key, mediaUrl = url, mediaType = mtype,
                          path = outputPath, fileSizeBytes = fsize\<rparr>, w1)))"

section \<open>Sink adapter (adapters/telegram.ts)\<close>

text \<open>\<^verbatim>\<open>chunkArray(items, size)\<close>. The source loop does not end for a chunk size of 0 on a
  non-empty array; its only caller passes 10.\<close>

function chunkArray :: "'a list \<Rightarrow> nat \<Rightarrow> 'a list list" where
  "chunkArray items n =
     (if n = 0 \<or> items = [] then []
      else take n items # chunkArray (drop n items) n)"
  by pat_completeness auto
termination
  by (relation "measure (\<lambda>(items, n). length items)") auto

record SendTweetMediaGroupInput =
  g_tweetUrl :: string
  g_username :: string
  g_postedAt :: string
  g_mediaFiles :: "LocalMediaFile list"

text \<open>\<^verbatim>\<open>toCaption\<close>: the lines that are non-empty, joined by a newline; an invalid
  \<^verbatim>\<open>postedAt\<close> makes \<^verbatim>\<open>toISOString\<close> throw.\<close>

definition toCaption :: "env \<Rightarrow> SendTweetMediaGroupInput \<Rightarrow> nat \<Rightarrow> error + string" where
  "toCaption E input chunkIndex =
     (case iso_of_date_string E (g_postedAt input) of
        None \<Rightarrow> Inl (RangeError ''Invalid time value'')
      | Some stamp \<Rightarrow>
          Inr (join [CHR 0x0A]
                 (filter (\<lambda>l. l \<noteq> [])
                    ([''@'' @ g_username input, stamp, g_tweetUrl input] @
                     (if chunkIndex > 0 then [''part '' @ String_of_nat (chunkIndex + 1)]
                      else [])))))"

definition ensureConnected :: "env \<Rightarrow> unit io" where
  "ensureConnected E w =
     (if tg_connected w then (Inr (), w)
      else
        (let w1 = w\<lparr>events := events w @ [EvConnect], tick := Suc (tick w)\<rparr> in
         case connect_at E (tick w) of
           Inl e \<Rightarrow> (Inl e, w1)
         | Inr authorized \<Rightarrow>
             if \<not> authorized then
               (Inl (Error ''Telegram session is not authorized. Run auth:telegram first.''), w1)
             else (Inr (), w1\<lparr>tg_connected := True\<rparr>)))"

definition sendTextMessage :: "env \<Rightarrow> string \<Rightarrow> unit io" where
  "sendTextMessage E msg w =
     (case ensureConnected E w of
        (Inl e, w1) \<Rightarrow> (Inl e, w1)
      | (Inr u, w1) \<Rightarrow>
          (sendMessage_at E (tick w1) msg,
           w1\<lparr>events := events w1 @ [EvSendText msg], tick := Suc (tick w1)\<rparr>))"

text \<open>The ids pushed for one \<^verbatim>\<open>sendFile\<close> result: of every message whose \<^verbatim>\<open>id\<close> is a
  number, \<^verbatim>\<open>String(id)\<close>.\<close>

definition result_messageIds :: "sendFile_result \<Rightarrow> string list" where
  "result_messageIds r =
     (let messages = (case r of Messages ms \<Rightarrow> ms | OneMessage m \<Rightarrow> [m]) in
      map String_of_int (List.map_filter (\<lambda>m. m) messages))"

text \<open>The loop over the chunks of \<^verbatim>\<open>sendTweetMediaGroup\<close>, from chunk \<open>index\<close> on, with the
  ids collected so far.\<close>

fun send_chunks ::
  "env \<Rightarrow> SendTweetMediaGroupInput \<Rightarrow> LocalMediaFile list list \<Rightarrow> nat \<Rightarrow> string list
     \<Rightarrow> string list io" where
  "send_chunks E input [] index messageIds w = (Inr messageIds, w)"
| "send_chunks E input (chunk # rest) index messageIds w =
     (let files = map path chunk in
      case toCaption E input index of
        Inl e \<Rightarrow> (Inl e, w)
      | Inr caption \<Rightarrow>
          (let w1 = w\<lparr>events := events w @ [EvSendFile files caption], tick := Suc (tick w)\<rparr> in
           case sendFile_at E (tick w) files caption of
             Inl e \<Rightarrow> (Inl e, w1)
           | Inr result \<Rightarrow>
               send_chunks E input rest (Suc index) (messageIds @ result_messageIds result) w1))"

definition sendTweetMediaGroup :: "env \<Rightarrow> SendTweetMediaGroupInput \<Rightarrow> string list io" where
  "sendTweetMediaGroup E input w =
     (case ensureConnected E w of
        (Inl e, w1) \<Rightarrow> (Inl e, w1)
      | (Inr u, w1) \<Rightarrow> send_chunks E input (chunkArray (g_mediaFiles input) 10) 0 [] w1)"

section \<open>Sync engine (core/pipeline.ts)\<close>

definition createAccountSummary :: "string \<Rightarrow> AccountRunSummary" where
  "createAccountSummary user =
     \<lparr>sum_username = user, sum_uploaded = 0, sum_skipped = 0, sum_failed = 0,
      incrementalTweetsSelected = 0, backfillTweetsSelected = 0,
      incrementalTweetsCandidates = 0, backfillTweetsCandidates = 0,
      sum_backfillDone = False, cooldownActive = False, cooldownUntil = None\<rparr>"

text \<open>JavaScript truthiness of a \<^verbatim>\<open>string | null | undefined\<close>.\<close>

definition truthy :: "string option \<Rightarrow> bool" where
  "truthy s = (case s of None \<Rightarrow> False | Some v \<Rightarrow> v \<noteq> [])"

text \<open>\<^verbatim>\<open>mergeUniqueTweets\<close>: a \<^verbatim>\<open>Map\<close> keeps the position of the first insertion of a key
  and the value of the last; the sort by \<^verbatim>\<open>Number(id)\<close> is stable.\<close>

definition mergeUniqueTweets :: "env \<Rightarrow> MediaTweet list \<Rightarrow> MediaTweet list" where
  "mergeUniqueTweets E ts =
     sort_key (\<lambda>t. Number_of E (tweet_id t))
       (map snd (foldl (\<lambda>m t. AList.update (tweet_id t) t m) [] ts))"

definition formatFailureReport :: "error \<Rightarrow> string \<Rightarrow> string" where
  "formatFailureReport e ctxt =
     join [CHR 0x0A]
       [[CHR 0xE2, CHR 0x9D, CHR 0x8C] @ '' X media sync failed'',
        ''context: '' @ ctxt,
        ''error: '' @ message e,
        ''hint: verify cookies/session and rerun'']"

definition String_of_bool :: "bool \<Rightarrow> string" where
  "String_of_bool b = (if b then ''true'' else ''false'')"

definition account_line :: "env \<Rightarrow> AccountRunSummary \<Rightarrow> string" where
  "account_line E a =
     (let cooldownSuffix =
        (case cooldownUntil a of
           Some t \<Rightarrow> if cooldownActive a then '' cooldownUntil='' @ iso_text E t else []
         | None \<Rightarrow> [])
      in ''@'' @ sum_username a @
         '' uploaded='' @ String_of_int (sum_uploaded a) @
         '' skipped='' @ String_of_int (sum_skipped a) @
         '' failed='' @ String_of_int (sum_failed a) @
         '' incremental='' @ String_of_int (incrementalTweetsSelected a) @ ''/'' @
            String_of_int (incrementalTweetsCandidates a) @
         '' backfill='' @ String_of_int (backfillTweetsSelected a) @ ''/'' @
            String_of_int (backfillTweetsCandidates a) @
         '' backfillDone='' @ String_of_bool (sum_backfillDone a) @ cooldownSuffix)"

definition formatRunReport :: "env \<Rightarrow> RunSummary \<Rightarrow> string" where
  "formatRunReport E summary =
     join [CHR 0x0A]
       ([[CHR 0xE2, CHR 0x9C, CHR 0x85] @ '' X media sync report'',
         ''started: '' @ iso_text E (startedAt summary),
         ''finished: '' @ iso_text E (finishedAt summary)] @
        map (account_line E) (accounts summary))"

text \<open>\<^verbatim>\<open>computeCooldownUntil\<close>:
  \<^verbatim>\<open>new Date(Date.now() + config.twitterRateLimitCooldownSeconds * 1000).toISOString()\<close>.\<close>

definition computeCooldownUntil :: "env \<Rightarrow> AppConfig \<Rightarrow> int io" where
  "computeCooldownUntil E C w =
     (let (now, w1) = Date_now E w in
      (toISOString (case twitterRateLimitCooldownSeconds C of
                      None \<Rightarrow> None
                    | Some secs \<Rightarrow> Some (now + secs * 1000)), w1))"

definition listTweetsWithMedia ::
  "env \<Rightarrow> ListTweetsWithMediaParams \<Rightarrow> ListTweetsWithMediaResult io" where
  "listTweetsWithMedia E params w =
     (listTweetsWithMedia_at E (tick w) params,
      w\<lparr>events := events w @ [EvListTweets params], tick := Suc (tick w)\<rparr>)"

record IncrementalResult =
  inc_tweets :: "MediaTweet list"
  newestSeenId :: "string option"

record BackfillResult =
  bf_tweets :: "MediaTweet list"
  bf_nextCursor :: "string option"
  bf_backfillDone :: bool

text \<open>The loop of \<^verbatim>\<open>collectIncrementalTweets\<close>: posts are accepted until one carries the
  latest seen id.\<close>

fun accept_until_seen :: "string option \<Rightarrow> MediaTweet list \<Rightarrow> MediaTweet list" where
  "accept_until_seen latestSeen [] = []"
| "accept_until_seen latestSeen (t # ts) =
     (if truthy latestSeen \<and> Some (tweet_id t) = latestSeen then []
      else t # accept_until_seen latestSeen ts)"

definition collectIncrementalTweets ::
  "env \<Rightarrow> AppConfig \<Rightarrow> string \<Rightarrow> string option \<Rightarrow> IncrementalResult io" where
  "collectIncrementalTweets E C user latestSeen w =
     (case listTweetsWithMedia E
             \<lparr>p_username = user, p_cursor = None, p_direction = Newer,
              p_limitPages = backfillPagesPerRun C\<rparr> w of
        (Inl e, w1) \<Rightarrow> (Inl e, w1)
      | (Inr response, w1) \<Rightarrow>
          (Inr \<lparr>inc_tweets = accept_until_seen latestSeen (tweets response),
                newestSeenId = (case tweets response of
                                  [] \<Rightarrow> latestSeen
                                | t # ts \<Rightarrow> Some (tweet_id t))\<rparr>, w1))"

definition collectBackfillTweets ::
  "env \<Rightarrow> AppConfig \<Rightarrow> string \<Rightarrow> string option \<Rightarrow> BackfillResult io" where
  "collectBackfillTweets E C user cursor w =
     (case listTweetsWithMedia E
             \<lparr>p_username = user, p_cursor = cursor, p_direction = Older,
              p_limitPages = backfillPagesPerRun C\<rparr> w of
        (Inl e, w1) \<Rightarrow> (Inl e, w1)
      | (Inr response, w1) \<Rightarrow>
          (Inr \<lparr>bf_tweets = tweets response,
                bf_nextCursor = nextCursor response,
                bf_backfillDone = (\<not> truthy (nextCursor response))\<rparr>, w1))"

subsection \<open>Per-post processing\<close>

text \<open>
  One iteration of the loop over \<^verbatim>\<open>tweet.media\<close> in \<^verbatim>\<open>processTweet\<close>, on the counters and
  the send list built so far. \<open>Some e\<close> is a throw out of the iteration, which leaves the
  \<^verbatim>\<open>try\<close> block with the counters and the send list as they are at that point.
\<close>

definition processMedia ::
  "env \<Rightarrow> AppConfig \<Rightarrow> MediaTweet \<Rightarrow> string \<Rightarrow> TweetMedia \<Rightarrow> ProcessTweetResult
     \<Rightarrow> LocalMediaFile list \<Rightarrow> world
     \<Rightarrow> (error option \<times> ProcessTweetResult \<times> LocalMediaFile list) \<times> world" where
  "processMedia E C tweet user m res downloadedFiles w =
     (let key = makeMediaKey E (tweet_id tweet) (media_url m) in
      if isMediaUploaded key w then
        ((None, res\<lparr>skipped := skipped res + 1\<rparr>, downloadedFiles), w)
      else
        (case withRetry
                (downloadMedia E key (media_url m) (media_type m)
                   (path_join (downloadTmpDir C) user)) 2 w of
           (Inl e, w1) \<Rightarrow> ((Some e, res, downloadedFiles), w1)
         | (Inr downloaded, w1) \<Rightarrow>
             if mediaType downloaded \<noteq> Photo
                \<and> fileSizeBytes downloaded > maxUploadVideoBytes C then
               (let (stamp, w2) = Date_now E w1;
                    w3 = markMediaUploaded
                           \<lparr>rec_mediaKey = key, rec_tweetId = tweet_id tweet,
                            rec_username = user, rec_mediaUrl = media_url m,
                            rec_mediaType = media_type m, rec_uploadedAt = stamp,
                            rec_telegramMessageIds = [], rec_status = SkippedOversize\<rparr> w2;
                    res1 = res\<lparr>skipped := skipped res + 1\<rparr>
                in case removeFileSafe E (path downloaded) w3 of
                     (Inl e, w4) \<Rightarrow> ((Some e, res1, downloadedFiles), w4)
                   | (Inr u, w4) \<Rightarrow> ((None, res1, downloadedFiles), w4))
             else ((None, res, downloadedFiles @ [downloaded]), w1)))"

fun media_loop ::
  "env \<Rightarrow> AppConfig \<Rightarrow> MediaTweet \<Rightarrow> string \<Rightarrow> TweetMedia list \<Rightarrow> ProcessTweetResult
     \<Rightarrow> LocalMediaFile list \<Rightarrow> world
     \<Rightarrow> (error option \<times> ProcessTweetResult \<times> LocalMediaFile list) \<times> world" where
  "media_loop E C tweet user [] res downloadedFiles w = ((None, res, downloadedFiles), w)"
| "media_loop E C tweet user (m # ms) res downloadedFiles w =
     (case processMedia E C tweet user m res downloadedFiles w of
        ((Some e, res1, files1), w1) \<Rightarrow> ((Some e, res1, files1), w1)
      | ((None, res1, files1), w1) \<Rightarrow> media_loop E C tweet user ms res1 files1 w1)"

text \<open>The loop after a successful send: one \<^verbatim>\<open>uploaded\<close> row per sent file, each with
  \<^verbatim>\<open>sendResult.messageIds\<close>.\<close>

fun mark_loop ::
  "env \<Rightarrow> MediaTweet \<Rightarrow> string \<Rightarrow> string list \<Rightarrow> LocalMediaFile list \<Rightarrow> ProcessTweetResult
     \<Rightarrow> world \<Rightarrow> ProcessTweetResult \<times> world" where
  "mark_loop E tweet user messageIds [] res w = (res, w)"
| "mark_loop E tweet user messageIds (f # fs) res w =
     (let (stamp, w1) = Date_now E w;
          w2 = markMediaUploaded
                 \<lparr>rec_mediaKey = mediaKey f, rec_tweetId = tweet_id tweet,
                  rec_username = user, rec_mediaUrl = mediaUrl f,
                  rec_mediaType = mediaType f, rec_uploadedAt = stamp,
                  rec_telegramMessageIds = messageIds, rec_status = Uploaded\<rparr> w1
      in mark_loop E tweet user messageIds fs (res\<lparr>uploaded := uploaded res + 1\<rparr>) w2)"

text \<open>The \<^verbatim>\<open>finally\<close> block: \<^verbatim>\<open>Promise.all\<close> starts every removal; the first failure in
  list order is the one thrown.\<close>

fun remove_all :: "env \<Rightarrow> string list \<Rightarrow> world \<Rightarrow> error option \<times> world" where
  "remove_all E [] w = (None, w)"
| "remove_all E (p # ps) w =
     (case removeFileSafe E p w of
        (r, w1) \<Rightarrow>
          (case remove_all E ps w1 of
             (r2, w2) \<Rightarrow> ((case r of Inl e \<Rightarrow> Some e | Inr u \<Rightarrow> r2), w2)))"

definition cleanup ::
  "env \<Rightarrow> LocalMediaFile list \<Rightarrow> ProcessTweetResult \<Rightarrow> ProcessTweetResult io" where
  "cleanup E downloadedFiles res w =
     (case remove_all E (map path downloadedFiles) w of
        (Some e, w1) \<Rightarrow> (Inl e, w1)
      | (None, w1) \<Rightarrow> (Inr res, w1))"

definition processTweet ::
  "env \<Rightarrow> AppConfig \<Rightarrow> MediaTweet \<Rightarrow> string \<Rightarrow> ProcessTweetResult io" where
  "processTweet E C tweet user w =
     (case media_loop E C tweet user (media tweet)
             \<lparr>uploaded = 0, skipped = 0, failed = 0\<rparr> [] w of
        ((Some e, res, downloadedFiles), w1) \<Rightarrow>
          cleanup E downloadedFiles (res\<lparr>failed := failed res + 1\<rparr>) w1
      | ((None, res, downloadedFiles), w1) \<Rightarrow>
          if length downloadedFiles = 0 then cleanup E downloadedFiles res w1
          else
            (case withRetry
                    (sendTweetMediaGroup E
                       \<lparr>g_tweetUrl = tweetUrl tweet, g_username = user,
                        g_postedAt = postedAt tweet, g_mediaFiles = downloadedFiles\<rparr>) 2 w1 of
               (Inl e, w2) \<Rightarrow>
                 cleanup E downloadedFiles (res\<lparr>failed := failed res + 1\<rparr>) w2
             | (Inr messageIds, w2) \<Rightarrow>
                 (case mark_loop E tweet user messageIds downloadedFiles res w2 of
                    (res1, w3) \<Rightarrow> cleanup E downloadedFiles res1 w3)))"

subsection \<open>One account\<close>

text \<open>The budget-bounded selection loop of \<^verbatim>\<open>run\<close>.\<close>

fun select_loop :: "int \<Rightarrow> MediaTweet list \<Rightarrow> MediaTweet list \<Rightarrow> MediaTweet list" where
  "select_loop mediaBudget selected [] = selected"
| "select_loop mediaBudget selected (tweet # rest) =
     (if mediaBudget \<le> 0 then selected
      else
        (let mediaCount = int (length (media tweet)) in
         if mediaCount > mediaBudget \<and> length selected > 0
         then select_loop mediaBudget selected rest
         else select_loop (mediaBudget - mediaCount) (selected @ [tweet]) rest))"

fun process_selected ::
  "env \<Rightarrow> AppConfig \<Rightarrow> string \<Rightarrow> MediaTweet list \<Rightarrow> PipelineTotals \<Rightarrow> PipelineTotals io" where
  "process_selected E C user [] totals w = (Inr totals, w)"
| "process_selected E C user (tweet # rest) totals w =
     (case processTweet E C tweet user w of
        (Inl e, w1) \<Rightarrow> (Inl e, w1)
      | (Inr processed, w1) \<Rightarrow>
          process_selected E C user rest
            (totals\<lparr>uploaded := uploaded totals + uploaded processed,
                    skipped := skipped totals + skipped processed,
                    failed := failed totals + failed processed\<rparr>) w1)"

text \<open>The candidates of an account in traversal order, and the posts selected from them.\<close>

definition candidates :: "env \<Rightarrow> MediaTweet list \<Rightarrow> MediaTweet list \<Rightarrow> MediaTweet list" where
  "candidates E incremental backfill =
     (let merged = mergeUniqueTweets E (incremental @ backfill);
          incrementalIds = map tweet_id incremental;
          incrementalCandidates = filter (\<lambda>t. tweet_id t \<in> set incrementalIds) merged;
          backfillCandidates = filter (\<lambda>t. tweet_id t \<notin> set incrementalIds) merged
      in incrementalCandidates @ backfillCandidates)"

definition select_tweets ::
  "env \<Rightarrow> AppConfig \<Rightarrow> MediaTweet list \<Rightarrow> MediaTweet list \<Rightarrow> MediaTweet list" where
  "select_tweets E C incremental backfill =
     select_loop (maxMediaPerRun C) [] (candidates E incremental backfill)"

text \<open>
  The body of the per-account \<^verbatim>\<open>try\<close> block of \<^verbatim>\<open>run\<close>. It returns the summary as mutated
  so far together with \<open>Some e\<close> when it throws \<open>e\<close>, and \<open>None\<close> when it completes, which
  is after the cursor write.
\<close>

definition account_try ::
  "env \<Rightarrow> AppConfig \<Rightarrow> string \<Rightarrow> AccountState \<Rightarrow> AccountRunSummary \<Rightarrow> world
     \<Rightarrow> (error option \<times> AccountRunSummary) \<times> world" where
  "account_try E C user state summary w =
     (case collectIncrementalTweets E C user (latestSeenTweetId state) w of
        (Inl e, w1) \<Rightarrow> ((Some e, summary), w1)
      | (Inr incremental, w1) \<Rightarrow>
          (let s1 = summary\<lparr>incrementalTweetsCandidates :=
                              int (length (inc_tweets incremental))\<rparr> in
           case (if backfillDone state
                 then (Inr \<lparr>bf_tweets = [], bf_nextCursor = None, bf_backfillDone = True\<rparr>, w1)
                 else collectBackfillTweets E C user (backfillCursor state) w1) of
             (Inl e, w2) \<Rightarrow> ((Some e, s1), w2)
           | (Inr backfill, w2) \<Rightarrow>
               (let s2 = s1\<lparr>backfillTweetsCandidates := int (length (bf_tweets backfill))\<rparr>;
                    incrementalIds = map tweet_id (inc_tweets incremental);
                    selected = select_tweets E C (inc_tweets incremental) (bf_tweets backfill);
                    nInc = int (length (filter (\<lambda>t. tweet_id t \<in> set incrementalIds) selected));
                    s3 = s2\<lparr>incrementalTweetsSelected := nInc,
                            backfillTweetsSelected := int (length selected) - nInc\<rparr>
                in case process_selected E C user selected
                          \<lparr>uploaded = 0, skipped = 0, failed = 0\<rparr> w2 of
                     (Inl e, w3) \<Rightarrow> ((Some e, s3), w3)
                   | (Inr totals, w3) \<Rightarrow>
                       (let s4 = s3\<lparr>sum_uploaded := uploaded totals,
                                    sum_skipped := skipped totals,
                                    sum_failed := failed totals,
                                    sum_backfillDone := bf_backfillDone backfill\<rparr>;
                            w4 = upsertAccountState E
                                   \<lparr>in_username = user,
                                    in_latestSeenTweetId = newestSeenId incremental,
                                    in_backfillCursor = bf_nextCursor backfill,
                                    in_backfillDone = bf_backfillDone backfill,
                                    in_rateLimitedUntil = None,
                                    in_updatedAt = None\<rparr> w3
                        in ((None, s4), w4)))))"

text \<open>The per-account \<^verbatim>\<open>catch\<close> block. A throw inside it leaves the account loop.\<close>

definition account_catch ::
  "env \<Rightarrow> AppConfig \<Rightarrow> string \<Rightarrow> AccountState \<Rightarrow> AccountRunSummary \<Rightarrow> error
     \<Rightarrow> AccountRunSummary io" where
  "account_catch E C user state summary e w =
     (if isTwitterRateLimitError e then
        (case computeCooldownUntil E C w of
           (Inl e1, w1) \<Rightarrow> (Inl e1, w1)
         | (Inr until, w1) \<Rightarrow>
             (Inr (summary\<lparr>sum_failed := 1, sum_backfillDone := backfillDone state,
                           cooldownActive := True, cooldownUntil := Some until\<rparr>),
              upsertAccountState E
                \<lparr>in_username = user,
                 in_latestSeenTweetId = latestSeenTweetId state,
                 in_backfillCursor = backfillCursor state,
                 in_backfillDone = backfillDone state,
                 in_rateLimitedUntil = Some until,
                 in_updatedAt = None\<rparr> w1))
      else
        (case sendTextMessage E (formatFailureReport e (''account:'' @ user)) w of
           (Inl e1, w1) \<Rightarrow> (Inl e1, w1)
         | (Inr u, w1) \<Rightarrow>
             (Inr (summary\<lparr>sum_failed := 1, sum_backfillDone := backfillDone state\<rparr>), w1)))"

text \<open>One iteration of the loop over \<^verbatim>\<open>config.twitterUsers\<close>: the summary pushed for the
  account, or the error that leaves the loop.\<close>

definition processAccount :: "env \<Rightarrow> AppConfig \<Rightarrow> string \<Rightarrow> AccountRunSummary io" where
  "processAccount E C user w =
     (let summary = createAccountSummary user;
          (state, w1) = getAccountState E user w;
          (now, w2) = Date_now E w1
      in if (case rateLimitedUntil state of None \<Rightarrow> False | Some ts \<Rightarrow> ts > now) then
           (Inr (summary\<lparr>cooldownActive := True,
                         cooldownUntil := rateLimitedUntil state,
                         sum_backfillDone := backfillDone state\<rparr>), w2)
         else
           (case account_try E C user state summary w2 of
              ((None, s), w3) \<Rightarrow> (Inr s, w3)
            | ((Some e, s), w3) \<Rightarrow> account_catch E C user state s e w3))"

fun account_loop ::
  "env \<Rightarrow> AppConfig \<Rightarrow> string list \<Rightarrow> AccountRunSummary list \<Rightarrow> AccountRunSummary list io" where
  "account_loop E C [] accountSummaries w = (Inr accountSummaries, w)"
| "account_loop E C (user # users) accountSummaries w =
     (case processAccount E C user w of
        (Inl e, w1) \<Rightarrow> (Inl e, w1)
      | (Inr summary, w1) \<Rightarrow> account_loop E C users (accountSummaries @ [summary]) w1)"

subsection \<open>A run\<close>

text \<open>\<^verbatim>\<open>stateRepo.init()\<close> creates the tables when they are absent and \<^verbatim>\<open>ensureDir\<close> creates
  the download directory; neither changes a row, and both are left out.\<close>

definition run :: "env \<Rightarrow> AppConfig \<Rightarrow> RunSummary io" where
  "run E C w =
     (let (t0, w1) = Date_now E w;
          holderId = ''sync-'' @ String_of_nat (pid E) @ ''-'' @ String_of_int t0;
          (started, w2) = Date_now E w1
      in case acquireJobLock E ''daily-sync'' holderId (jobLockTtlSeconds C) w2 of
           (Inl e, w3) \<Rightarrow> (Inl e, w3)
         | (Inr lockAcquired, w3) \<Rightarrow>
             if \<not> lockAcquired then
               (let (finished, w4) = Date_now E w3 in
                (Inr \<lparr>startedAt = started, finishedAt = finished,
                      skippedByLock = True, accounts = []\<rparr>, w4))
             else
               (let (r, w4) =
                      (case account_loop E C (twitterUsers C) [] w3 of
                         (Inl e, wa) \<Rightarrow> (Inl e, wa)
                       | (Inr accountSummaries, wa) \<Rightarrow>
                           (let (finished, wb) = Date_now E wa;
                                result = \<lparr>startedAt = started, finishedAt = finished,
                                          skippedByLock = False,
                                          accounts = accountSummaries\<rparr>
                            in case sendTextMessage E (formatRunReport E result) wb of
                                 (Inl e, wc) \<Rightarrow> (Inl e, wc)
                               | (Inr u, wc) \<Rightarrow> (Inr result, wc)));
                    (r1, w5) =
                      (case r of
                         Inr result \<Rightarrow> (Inr result, w4)
                       | Inl e \<Rightarrow>
                           (case sendTextMessage E (formatFailureReport e ''pipeline.run'') w4 of
                              (Inl e1, wd) \<Rightarrow> (Inl e1, wd)
                            | (Inr u, wd) \<Rightarrow> (Inl e, wd)))
                in (r1, releaseJobLock ''daily-sync'' holderId w5)))"

section \<open>Scheduler (scheduler.ts)\<close>

record SchedulerConfig =
  sch_timezone :: string
  dailyAt :: string
  dailyAtHour :: int
  dailyAtMinute :: int
  tickSeconds :: int
  runOnStart :: bool

text \<open>The result of \<^verbatim>\<open>currentDateParts(timezone)\<close>.\<close>

record DateParts =
  dateKey :: string
  hour :: int
  minute :: int

text \<open>The two variables that the closure \<^verbatim>\<open>executeDueRun\<close> shares between ticks.\<close>

record scheduler_state =
  isRunning :: bool
  lastRunDateKey :: string

definition disconnect :: "env \<Rightarrow> unit io" where
  "disconnect E w =
     (if \<not> tg_connected w then (Inr (), w)
      else
        (case disconnect_at E (tick w) of
           Inl e \<Rightarrow> (Inl e, w\<lparr>tick := Suc (tick w)\<rparr>)
         | Inr u \<Rightarrow> (Inr (), w\<lparr>tg_connected := False, tick := Suc (tick w)\<rparr>)))"

text \<open>\<^verbatim>\<open>runSyncOnce\<close>, given the outcome of \<^verbatim>\<open>loadConfig()\<close>: a fresh sink client, one run,
  and the disconnect of the \<^verbatim>\<open>finally\<close> block.\<close>

definition runSyncOnce :: "env \<Rightarrow> error + AppConfig \<Rightarrow> RunSummary io" where
  "runSyncOnce E cfg w =
     (case cfg of
        Inl e \<Rightarrow> (Inl e, w)
      | Inr C \<Rightarrow>
          (case run E C (w\<lparr>tg_connected := False\<rparr>) of
             (r, w1) \<Rightarrow>
               (case disconnect E w1 of
                  (Inl e, w2) \<Rightarrow> (Inl e, w2)
                | (Inr u, w2) \<Rightarrow> (r, w2))))"

definition dueToday :: "SchedulerConfig \<Rightarrow> DateParts \<Rightarrow> bool" where
  "dueToday scheduler now =
     (hour now > dailyAtHour scheduler
      \<or> (hour now = dailyAtHour scheduler \<and> minute now \<ge> dailyAtMinute scheduler))"

text \<open>
  \<^verbatim>\<open>executeDueRun\<close> up to its \<^verbatim>\<open>await\<close>: whether the engine is invoked, and the state
  while the run is in flight. Nothing else runs between the test of \<^verbatim>\<open>isRunning\<close> and its
  assignment.
\<close>

definition executeDueRun_begin ::
  "SchedulerConfig \<Rightarrow> DateParts \<Rightarrow> scheduler_state \<Rightarrow> bool \<times> scheduler_state" where
  "executeDueRun_begin scheduler now st =
     (if isRunning st then (False, st)
      else if \<not> dueToday scheduler now \<or> lastRunDateKey st = dateKey now then (False, st)
      else (True, st\<lparr>isRunning := True\<rparr>))"

text \<open>\<^verbatim>\<open>executeDueRun\<close> after the \<^verbatim>\<open>await\<close>, on the outcome of the run.\<close>

definition executeDueRun_end ::
  "DateParts \<Rightarrow> error + RunSummary \<Rightarrow> scheduler_state \<Rightarrow> scheduler_state" where
  "executeDueRun_end now r st =
     (case r of
        Inr result \<Rightarrow>
          if \<not> skippedByLock result
          then st\<lparr>lastRunDateKey := dateKey now, isRunning := False\<rparr>
          else st\<lparr>isRunning := False\<rparr>
      | Inl e \<Rightarrow> st\<lparr>isRunning := False\<rparr>)"

text \<open>A whole tick with no other tick in between.\<close>

definition executeDueRun ::
  "SchedulerConfig \<Rightarrow> DateParts \<Rightarrow> RunSummary io \<Rightarrow> scheduler_state \<times> world
     \<Rightarrow> scheduler_state \<times> world" where
  "executeDueRun scheduler now engine sw =
     (case executeDueRun_begin scheduler now (fst sw) of
        (False, st1) \<Rightarrow> (st1, snd sw)
      | (True, st1) \<Rightarrow>
          (case engine (snd sw) of
             (r, w1) \<Rightarrow> (executeDueRun_end now r st1, w1)))"

section \<open>Configuration loader (config/index.ts)\<close>

text \<open>
  \<^verbatim>\<open>process.env\<close> is a partial map from names to strings. Two built-ins are parameters:
  \<open>Number_int s\<close> is \<open>Some n\<close> when \<^verbatim>\<open>Number(s)\<close> is the integer \<open>n\<close> and \<open>None\<close>
  otherwise, and \<open>JSON_parse\<close> is \<^verbatim>\<open>JSON.parse\<close>, which returns a value or throws.
  Characters are bytes: the white space of \<^verbatim>\<open>trim\<close> and of \<^verbatim>\<open>\s\<close> is the ASCII white space,
  and lower case is taken of the ASCII letters.
\<close>

definition is_space :: "char \<Rightarrow> bool" where
  "is_space c = (c \<in> set [CHR 0x09, CHR 0x0A, CHR 0x0B, CHR 0x0C, CHR 0x0D, CHR 0x20])"

definition trim :: "string \<Rightarrow> string" where
  "trim s = rev (dropWhile is_space (rev (dropWhile is_space s)))"

text \<open>\<^verbatim>\<open>s.split(",")\<close>.\<close>

fun split_comma :: "string \<Rightarrow> string list" where
  "split_comma [] = [[]]"
| "split_comma (c # cs) =
     (if c = CHR '','' then [] # split_comma cs
      else (case split_comma cs of
              [] \<Rightarrow> [[c]]
            | x # xs \<Rightarrow> (c # x) # xs))"

definition strip_at :: "string \<Rightarrow> string" where
  "strip_at s = (case s of [] \<Rightarrow> [] | c # cs \<Rightarrow> if c = CHR ''@'' then cs else s)"

definition parse_users :: "string \<Rightarrow> string list" where
  "parse_users v = filter (\<lambda>item. item \<noteq> []) (map (\<lambda>item. strip_at (trim item)) (split_comma v))"

text \<open>\<^verbatim>\<open>z.string().min(n)\<close> without a default.\<close>

definition required_string :: "(string \<rightharpoonup> string) \<Rightarrow> string \<Rightarrow> nat \<Rightarrow> error + string" where
  "required_string environment name n =
     (case environment name of
        None \<Rightarrow> Inl (ZodError name)
      | Some v \<Rightarrow> if length v \<ge> n then Inr v else Inl (ZodError name))"

text \<open>\<^verbatim>\<open>z.string().default(d)\<close>.\<close>

definition string_default :: "(string \<rightharpoonup> string) \<Rightarrow> string \<Rightarrow> string \<Rightarrow> string" where
  "string_default environment name d = (case environment name of None \<Rightarrow> d | Some v \<Rightarrow> v)"

text \<open>\<^verbatim>\<open>z.coerce.number().int().positive()\<close>, without and with \<^verbatim>\<open>.default(d)\<close>.\<close>

definition positive_int ::
  "(string \<Rightarrow> int option) \<Rightarrow> (string \<rightharpoonup> string) \<Rightarrow> string \<Rightarrow> error + int" where
  "positive_int Number_int environment name =
     (case environment name of
        None \<Rightarrow> Inl (ZodError name)
      | Some v \<Rightarrow>
          (case Number_int v of
             None \<Rightarrow> Inl (ZodError name)
           | Some n \<Rightarrow> if n > 0 then Inr n else Inl (ZodError name)))"

definition positive_int_default ::
  "(string \<Rightarrow> int option) \<Rightarrow> (string \<rightharpoonup> string) \<Rightarrow> string \<Rightarrow> int \<Rightarrow> error + int" where
  "positive_int_default Number_int environment name d =
     (case environment name of
        None \<Rightarrow> Inr d
      | Some v \<Rightarrow> positive_int Number_int environment name)"

subsection \<open>Cookies\<close>

definition to_lower :: "char \<Rightarrow> char" where
  "to_lower c =
     (if of_char c \<ge> (65::nat) \<and> of_char c \<le> (90::nat) then char_of (of_char c + (32::nat))
      else c)"

text \<open>
  A value returned by \<^verbatim>\<open>JSON.parse\<close>. A number is kept as the text that \<^verbatim>\<open>String\<close> gives
  for it; the properties of an object are listed with distinct names.
\<close>

datatype json =
    JNull
  | JBool bool
  | JNumber string
  | JString string
  | JArray "json list"
  | JObject "(string \<times> json) list"

text \<open>\<^verbatim>\<open>String(v)\<close>, as a template literal applies it; \<^verbatim>\<open>null\<close> inside an array gives the
  empty text.\<close>

fun String_of_json :: "json \<Rightarrow> string" where
  "String_of_json JNull = ''null''"
| "String_of_json (JBool b) = String_of_bool b"
| "String_of_json (JNumber t) = t"
| "String_of_json (JString s) = s"
| "String_of_json (JArray xs) =
     join '','' (map (\<lambda>x. if x = JNull then [] else String_of_json x) xs)"
| "String_of_json (JObject props) = ''[object Object]''"

definition normalizeCookieDomain :: "string \<Rightarrow> string" where
  "normalizeCookieDomain domain =
     (let trimmed = map to_lower (trim domain) in
      if trimmed = ''x.com'' \<or> trimmed = ''.x.com'' then ''.twitter.com'' else domain)"

text \<open>The length of the match of \<^verbatim>\<open>/Domain\s*=\s*\.?x\.com/i\<close> at the start of a text, when
  there is one.\<close>

definition domain_match :: "string \<Rightarrow> nat option" where
  "domain_match s =
     (if map to_lower (take 6 s) = ''domain'' then
        (case dropWhile is_space (drop 6 s) of
           [] \<Rightarrow> None
         | c # rest \<Rightarrow>
             if c \<noteq> CHR ''='' then None
             else
               (let b = dropWhile is_space rest;
                    d = (if take 1 b = ''.'' \<and> map to_lower (take 5 (drop 1 b)) = ''x.com''
                         then drop 1 b else b)
                in if map to_lower (take 5 d) = ''x.com''
                   then Some (length s - length (drop 5 d)) else None))
      else None)"

text \<open>\<^verbatim>\<open>cookie.replace(/Domain\s*=\s*\.?x\.com/gi, "Domain=.twitter.com")\<close>: the text is
  scanned from the left, \<open>k\<close> being the number of characters of the last match that are
  still to be passed over.\<close>

fun replace_domain :: "nat \<Rightarrow> string \<Rightarrow> string" where
  "replace_domain k [] = []"
| "replace_domain k (c # cs) =
     (if k > 0 then replace_domain (k - 1) cs
      else (case domain_match (c # cs) of
              Some n \<Rightarrow> ''Domain=.twitter.com'' @ replace_domain (n - 1) cs
            | None \<Rightarrow> c # replace_domain 0 cs))"

definition normalizeCookieString :: "string \<Rightarrow> string" where
  "normalizeCookieString cookie = replace_domain 0 cookie"

definition extractCookieName :: "string \<Rightarrow> string option" where
  "extractCookieName cookie =
     (let first = takeWhile (\<lambda>c. c \<noteq> CHR '';'') cookie in
      if first = [] \<or> CHR ''='' \<notin> set first then None
      else Some (trim (takeWhile (\<lambda>c. c \<noteq> CHR ''='') first)))"

text \<open>The callback of \<^verbatim>\<open>parsed.map\<close> in \<^verbatim>\<open>parseCookies\<close>: a string entry is normalised, an
  object entry with string \<^verbatim>\<open>key\<close> or \<^verbatim>\<open>name\<close>, \<^verbatim>\<open>value\<close> and \<^verbatim>\<open>domain\<close> is formatted, and
  every other entry throws.\<close>

definition normalizeCookie :: "json \<Rightarrow> error + string" where
  "normalizeCookie cookie =
     (case cookie of
        JString s \<Rightarrow> Inr (normalizeCookieString s)
      | JObject props \<Rightarrow>
          (let name = (case map_of props ''key'' of
                         None \<Rightarrow> map_of props ''name''
                       | Some JNull \<Rightarrow> map_of props ''name''
                       | Some k \<Rightarrow> Some k);
               cpath = (case map_of props ''path'' of
                          None \<Rightarrow> JString ''/''
                        | Some JNull \<Rightarrow> JString ''/''
                        | Some p \<Rightarrow> p)
           in (case name of
                 Some (JString n) \<Rightarrow>
                   (case map_of props ''value'' of
                      Some (JString v) \<Rightarrow>
                        (case map_of props ''domain'' of
                           Some (JString domainRaw) \<Rightarrow>
                             Inr (n @ ''='' @ v @ ''; Domain='' @ normalizeCookieDomain domainRaw
                                  @ ''; Path='' @ String_of_json cpath @ '';'')
                         | _ \<Rightarrow> Inl (Error ''Invalid cookie entry in TWITTER_COOKIES_JSON''))
                    | _ \<Rightarrow> Inl (Error ''Invalid cookie entry in TWITTER_COOKIES_JSON''))
               | _ \<Rightarrow> Inl (Error ''Invalid cookie entry in TWITTER_COOKIES_JSON'')))
      | _ \<Rightarrow> Inl (Error ''Invalid cookie entry in TWITTER_COOKIES_JSON''))"

fun map_cookies :: "json list \<Rightarrow> error + string list" where
  "map_cookies [] = Inr []"
| "map_cookies (cookie # rest) =
     (case normalizeCookie cookie of
        Inl e \<Rightarrow> Inl e
      | Inr c \<Rightarrow> (case map_cookies rest of Inl e \<Rightarrow> Inl e | Inr cs \<Rightarrow> Inr (c # cs)))"

definition parseCookies :: "(string \<Rightarrow> error + json) \<Rightarrow> string \<Rightarrow> error + string list" where
  "parseCookies JSON_parse raw =
     (case JSON_parse raw of
        Inl e \<Rightarrow> Inl e
      | Inr parsed \<Rightarrow>
          (case parsed of
             JArray entries \<Rightarrow>
               (case map_cookies entries of
                  Inl e \<Rightarrow> Inl e
                | Inr normalizedCookies \<Rightarrow>
                    (let cookieNames =
                           filter (\<lambda>n. n \<noteq> [])
                             (List.map_filter extractCookieName normalizedCookies)
                     in if ''auth_token'' \<notin> set cookieNames \<or> ''ct0'' \<notin> set cookieNames
                        then Inl (Error ''TWITTER_COOKIES_JSON must include auth_token and ct0 cookies'')
                        else Inr normalizedCookies))
           | _ \<Rightarrow> Inl (Error ''TWITTER_COOKIES_JSON must be a JSON array'')))"

subsection \<open>The loader\<close>

text \<open>
  \<^verbatim>\<open>loadConfig\<close>: \<^verbatim>\<open>syncEnvSchema.parse(environment)\<close>, which reads the twelve keys of the
  schema and drops every other variable, then the object literal of the twelve properties
  of \<^verbatim>\<open>AppConfig\<close>. The literal has no property \<^verbatim>\<open>twitterRateLimitCooldownSeconds\<close>.
\<close>

definition loadConfig ::
  "(string \<Rightarrow> int option) \<Rightarrow> (string \<Rightarrow> error + json) \<Rightarrow> (string \<rightharpoonup> string)
     \<Rightarrow> error + AppConfig" where
  "loadConfig Number_int JSON_parse environment =
     (case required_string environment ''TWITTER_USERS'' 1 of
        Inl e \<Rightarrow> Inl e
      | Inr users \<Rightarrow>
     (case required_string environment ''TWITTER_COOKIES_JSON'' 2 of
        Inl e \<Rightarrow> Inl e
      | Inr cookies \<Rightarrow>
     (case positive_int Number_int environment ''TELEGRAM_API_ID'' of
        Inl e \<Rightarrow> Inl e
      | Inr apiId \<Rightarrow>
     (case required_string environment ''TELEGRAM_API_HASH'' 10 of
        Inl e \<Rightarrow> Inl e
      | Inr apiHash \<Rightarrow>
     (case positive_int_default Number_int environment ''BACKFILL_PAGES_PER_RUN'' 10 of
        Inl e \<Rightarrow> Inl e
      | Inr pages \<Rightarrow>
     (case positive_int_default Number_int environment ''MAX_MEDIA_PER_RUN'' 300 of
        Inl e \<Rightarrow> Inl e
      | Inr maxMedia \<Rightarrow>
     (case positive_int_default Number_int environment ''JOB_LOCK_TTL_SECONDS'' 3300 of
        Inl e \<Rightarrow> Inl e
      | Inr ttl \<Rightarrow>
     (case positive_int_default Number_int environment ''MAX_UPLOAD_VIDEO_BYTES''
             (512 * 1024 * 1024) of
        Inl e \<Rightarrow> Inl e
      | Inr maxBytes \<Rightarrow>
     (case parseCookies JSON_parse cookies of
        Inl e \<Rightarrow> Inl e
      | Inr cookieList \<Rightarrow>
        Inr \<lparr>twitterUsers = parse_users users,
             twitterCookies = cookieList,
             telegramApiId = apiId,
             telegramApiHash = apiHash,
             telegramStringSession = string_default environment ''TELEGRAM_STRING_SESSION'' [],
             timezone = string_default environment ''TZ'' ''Asia/Shanghai'',
             stateDbPath = string_default environment ''STATE_DB_PATH'' ''/data/state.sqlite'',
             backfillPagesPerRun = pages,
             maxMediaPerRun = maxMedia,
             downloadTmpDir = string_default environment ''DOWNLOAD_TMP_DIR'' ''/tmp/work'',
             jobLockTtlSeconds = ttl,
             maxUploadVideoBytes = maxBytes,
             twitterRateLimitCooldownSeconds = None\<rparr>)))))))))"

section \<open>The second copy of errors.ts\<close>

text \<open>
  The source tree holds a second text of the module \<^verbatim>\<open>errors.ts\<close> (the first twenty lines
  of \<^verbatim>\<open>unnamed/part_001\<close>), which is not the file that \<^verbatim>\<open>core/pipeline.ts\<close> imports. Its
  classifier adds a test of the message against \<^verbatim>\<open>/\(429\)|rate limit/i\<close>.
\<close>

fun starts_with :: "string \<Rightarrow> string \<Rightarrow> bool" where
  "starts_with [] s = True"
| "starts_with (p # ps) [] = False"
| "starts_with (p # ps) (c # cs) = (p = c \<and> starts_with ps cs)"

fun contains_str :: "string \<Rightarrow> string \<Rightarrow> bool" where
  "contains_str pat [] = (pat = [])"
| "contains_str pat (c # cs) = (starts_with pat (c # cs) \<or> contains_str pat cs)"

definition rate_limit_pattern :: "string \<Rightarrow> bool" where
  "rate_limit_pattern msg =
     (contains_str ''(429)'' msg \<or> contains_str ''rate limit'' (map to_lower msg))"

definition isTwitterRateLimitError_by_message :: "error \<Rightarrow> bool" where
  "isTwitterRateLimitError_by_message e =
     (case e of
        TwitterRateLimitError m hosts \<Rightarrow> True
      | _ \<Rightarrow> rate_limit_pattern (message e))"

section \<open>Vocabulary of the properties\<close>

definition keys_of :: "world \<Rightarrow> string list" where
  "keys_of w = map rec_mediaKey (media_registry w)"

definition frame :: "(event \<Rightarrow> bool) \<Rightarrow> world \<Rightarrow> world \<Rightarrow> bool" where
  "frame P w w' =
     ((\<exists>evs. events w' = events w @ evs \<and> list_all P evs)
      \<and> account_state w' = account_state w
      \<and> job_lock w' = job_lock w
      \<and> set (keys_of w) \<subseteq> set (keys_of w')
      \<and> (distinct (keys_of w) \<longrightarrow> distinct (keys_of w')))"

definition file_ok :: "AppConfig \<Rightarrow> string \<Rightarrow> world \<Rightarrow> LocalMediaFile \<Rightarrow> bool" where
  "file_ok C user w f =
     (\<not> isMediaUploaded (mediaKey f) w
      \<and> path f = path_join (path_join (downloadTmpDir C) user)
                   (mediaKey f @ extensionByType (mediaType f)))"

definition new_events :: "world \<Rightarrow> world \<Rightarrow> event list" where
  "new_events w w' = drop (length (events w)) (events w')"

definition media_count :: "MediaTweet \<Rightarrow> int" where
  "media_count t = int (length (media t))"

definition total_media :: "MediaTweet list \<Rightarrow> int" where
  "total_media ts = sum_list (map media_count ts)"

text \<open>The external calls of the fetch and per-post phases: everything but a text message.\<close>

definition work_event :: "event \<Rightarrow> bool" where
  "work_event e = (case e of EvSendText m \<Rightarrow> False | _ \<Rightarrow> True)"

definition decimal_value :: "string \<Rightarrow> int" where
  "decimal_value s = int (foldl (\<lambda>a c. 10 * a + (of_char c - 48)) 0 s)"

definition demo_media :: "string \<Rightarrow> TweetMedia" where
  "demo_media user =
     \<lparr>media_id = ''m1'', media_url = ''https://example.com/'' @ user @ ''.jpg'',
      media_type = Photo\<rparr>"

definition demo_tweet :: "string \<Rightarrow> MediaTweet" where
  "demo_tweet user =
     \<lparr>tweet_id = ''1'', tweet_username = user, tweet_text = [],
      tweetUrl = ''https://x.com/'' @ user @ ''/status/1'',
      postedAt = ''2024-01-01T00:00:00.000Z'',
      media = [demo_media user]\<rparr>"

definition demo_env :: env where
  "demo_env =
     \<lparr>sha256_hex = (\<lambda>s. s),
      Number_of = decimal_value,
      iso_text = String_of_int,
      iso_of_date_string = Some,
      pid = 7,
      now_at = (\<lambda>n. 1000 * int n),
      listTweetsWithMedia_at =
        (\<lambda>n params.
           if p_direction params = Newer
           then Inr \<lparr>tweets = [demo_tweet (p_username params)], nextCursor = None\<rparr>
           else Inr \<lparr>tweets = [], nextCursor = None\<rparr>),
      fetch_at = (\<lambda>n url. Inr \<lparr>resp_ok = True, resp_status = 200, resp_has_body = True\<rparr>),
      write_at = (\<lambda>n p. Inr 10),
      rm_at = (\<lambda>n p. Inr ()),
      connect_at = (\<lambda>n. Inr True),
      sendFile_at = (\<lambda>n files caption. Inr (Messages (map (\<lambda>f. Some 100) files))),
      sendMessage_at = (\<lambda>n msg. Inr ()),
      disconnect_at = (\<lambda>n. Inr ())\<rparr>"

definition demo_config :: AppConfig where
  "demo_config =
     \<lparr>twitterUsers = [''alice'', ''bob''], twitterCookies = [], telegramApiId = 1,
      telegramApiHash = ''hash'', telegramStringSession = ''session'',
      timezone = ''Asia/Shanghai'', stateDbPath = '':memory:'', backfillPagesPerRun = 1,
      maxMediaPerRun = 1, downloadTmpDir = ''/tmp/work'', jobLockTtlSeconds = 10,
      maxUploadVideoBytes = 10, twitterRateLimitCooldownSeconds = Some 7200\<rparr>"

definition demo_world :: world where
  "demo_world =
     \<lparr>account_state = Map.empty, media_registry = [], job_lock = Map.empty,
      tg_connected = False, events = [], tick = 0\<rparr>"

text \<open>The world after the media of \<open>demo_tweet ''alice''\<close> was uploaded.\<close>

definition demo_world_registered :: world where
  "demo_world_registered =
     demo_world\<lparr>media_registry :=
       [\<lparr>rec_mediaKey = ''1::https://example.com/alice.jpg'', rec_tweetId = ''1'',
         rec_username = ''alice'', rec_mediaUrl = ''https://example.com/alice.jpg'',
         rec_mediaType = Photo, rec_uploadedAt = 0,
         rec_telegramMessageIds = [''100''], rec_status = Uploaded\<rparr>]\<rparr>"

definition is_download :: "event \<Rightarrow> bool" where
  "is_download e = (case e of EvDownload k u \<Rightarrow> True | _ \<Rightarrow> False)"

text \<open>What the rows written after a successful send hold.\<close>

definition sent_row :: "MediaTweet \<Rightarrow> string \<Rightarrow> string list \<Rightarrow> StoredMediaRecord \<Rightarrow> bool" where
  "sent_row tweet user ids r =
     (rec_telegramMessageIds r = ids \<and> rec_status r = Uploaded
      \<and> rec_tweetId r = tweet_id tweet \<and> rec_username r = user)"

text \<open>A decimal reading of \<^verbatim>\<open>Number\<close> for the demonstration inputs.\<close>

definition demo_Number_int :: "string \<Rightarrow> int option" where
  "demo_Number_int s =
     (if s \<noteq> [] \<and> list_all (\<lambda>c. (48::nat) \<le> of_char c \<and> of_char c \<le> (57::nat)) s
      then Some (decimal_value s) else None)"

text \<open>A text between double quotes.\<close>

definition quoted :: "string \<Rightarrow> string" where
  "quoted s = CHR 0x22 # s @ [CHR 0x22]"

text \<open>
  The JSON text of an array of two cookie objects, each with the properties \<^verbatim>\<open>name\<close>,
  \<^verbatim>\<open>value\<close> and \<^verbatim>\<open>domain\<close>: the cookie \<^verbatim>\<open>auth_token\<close> with value \<^verbatim>\<open>a\<close> on \<^verbatim>\<open>.x.com\<close> and
  the cookie \<^verbatim>\<open>ct0\<close> with value \<^verbatim>\<open>b\<close> on \<^verbatim>\<open>.twitter.com\<close>; and the value that
  \<^verbatim>\<open>JSON.parse\<close> returns for it.
\<close>

definition demo_cookies_json :: string where
  "demo_cookies_json =
     ''[{'' @ quoted ''name'' @ '':'' @ quoted ''auth_token'' @ '','' @
             quoted ''value'' @ '':'' @ quoted ''a'' @ '','' @
             quoted ''domain'' @ '':'' @ quoted ''.x.com'' @ ''},{'' @
             quoted ''name'' @ '':'' @ quoted ''ct0'' @ '','' @
             quoted ''value'' @ '':'' @ quoted ''b'' @ '','' @
             quoted ''domain'' @ '':'' @ quoted ''.twitter.com'' @ ''}]''"

definition demo_cookies_value :: json where
  "demo_cookies_value =
     JArray [JObject [(''name'', JString ''auth_token''), (''value'', JString ''a''),
                      (''domain'', JString ''.x.com'')],
             JObject [(''name'', JString ''ct0''), (''value'', JString ''b''),
                      (''domain'', JString ''.twitter.com'')]]"

text \<open>\<^verbatim>\<open>JSON.parse\<close> on the two texts used below, the cookie array and the empty array; on
  every other text this stand-in throws.\<close>

definition demo_JSON_parse :: "string \<Rightarrow> error + json" where
  "demo_JSON_parse raw =
     (if raw = demo_cookies_json then Inr demo_cookies_value
      else if raw = ''[]'' then Inr (JArray [])
      else Inl (Error ''Unexpected token''))"

definition demo_environment :: "string \<rightharpoonup> string" where
  "demo_environment =
     [''TWITTER_USERS'' \<mapsto> ''@alice, bob'',
      ''TWITTER_COOKIES_JSON'' \<mapsto> demo_cookies_json,
      ''TELEGRAM_API_ID'' \<mapsto> ''1'',
      ''TELEGRAM_API_HASH'' \<mapsto> ''0123456789'',
      ''SOURCE_RATE_LIMIT_COOLDOWN_SECONDS'' \<mapsto> ''60'',
      ''TWITTER_RATE_LIMIT_COOLDOWN_SECONDS'' \<mapsto> ''60'']"

definition demo_loaded_config :: AppConfig where
  "demo_loaded_config =
     \<lparr>twitterUsers = [''alice'', ''bob''],
      twitterCookies = [''auth_token=a; Domain=.twitter.com; Path=/;'',
                        ''ct0=b; Domain=.twitter.com; Path=/;''],
      telegramApiId = 1, telegramApiHash = ''0123456789'', telegramStringSession = [],
      timezone = ''Asia/Shanghai'', stateDbPath = ''/data/state.sqlite'',
      backfillPagesPerRun = 10, maxMediaPerRun = 300, downloadTmpDir = ''/tmp/work'',
      jobLockTtlSeconds = 3300, maxUploadVideoBytes = 536870912,
      twitterRateLimitCooldownSeconds = None\<rparr>"

text \<open>A rate-limit error as the source adapter throws it.\<close>

definition demo_rate_limit_error :: error where
  "demo_rate_limit_error =
     TwitterRateLimitError ''Twitter GraphQL failed on all hosts'' [''twitter.com'', ''x.com'']"

text \<open>A generic error whose message carries the status of a rate-limited request.\<close>

definition demo_429_error :: error where
  "demo_429_error = Error ''Twitter GraphQL failed on all hosts: request failed on x.com (429): Rate limit exceeded''"

text \<open>A source that returns no post in either direction, and a continuation token for the
  older direction.\<close>

definition demo_env_empty :: env where
  "demo_env_empty =
     demo_env\<lparr>listTweetsWithMedia_at :=
       (\<lambda>n params. Inr \<lparr>tweets = [],
                          nextCursor = (if p_direction params = Older then Some ''cursor-2''
                                        else None)\<rparr>)\<rparr>"

definition total_uploaded :: "error + RunSummary \<Rightarrow> int" where
  "total_uploaded r =
     (case r of Inl e \<Rightarrow> 0 | Inr summary \<Rightarrow> sum_list (map sum_uploaded (accounts summary)))"

text \<open>A post of two media, for the selection rules.\<close>

definition demo_tweet2 :: MediaTweet where
  "demo_tweet2 =
     \<lparr>tweet_id = ''2'', tweet_username = ''alice'', tweet_text = [],
      tweetUrl = ''https://x.com/alice/status/2'',
      postedAt = ''2024-01-02T00:00:00.000Z'',
      media = [\<lparr>media_id = ''m2'', media_url = ''https://example.com/b.jpg'', media_type = Photo\<rparr>,
               \<lparr>media_id = ''m3'', media_url = ''https://example.com/c.jpg'', media_type = Photo\<rparr>]\<rparr>"


definition demo_video :: TweetMedia where
  "demo_video = \<lparr>media_id = ''v1'', media_url = ''https://example.com/v.mp4'', media_type = Video\<rparr>"

text \<open>A configuration whose size cap is below the ten bytes that every demonstration
  download has.\<close>

definition demo_config_small :: AppConfig where
  "demo_config_small = demo_config\<lparr>maxUploadVideoBytes := 5\<rparr>"

definition demo_scheduler :: SchedulerConfig where
  "demo_scheduler =
     \<lparr>sch_timezone = ''Asia/Shanghai'', dailyAt = ''09:00'', dailyAtHour = 9,
      dailyAtMinute = 0, tickSeconds = 30, runOnStart = False\<rparr>"

definition demo_now :: DateParts where
  "demo_now = \<lparr>dateKey = ''2024-01-02'', hour = 9, minute = 30\<rparr>"

definition demo_now_early :: DateParts where
  "demo_now_early = \<lparr>dateKey = ''2024-01-02'', hour = 8, minute = 59\<rparr>"

definition demo_scheduler_state :: scheduler_state where
  "demo_scheduler_state = \<lparr>isRunning = False, lastRunDateKey = ''2024-01-01''\<rparr>"

text \<open>
  What a whole run may do to the registry and the trace: the trace grows by events that
  satisfy \<open>P\<close>, no key leaves the registry, and distinct keys stay distinct. The account
  table and the lock table are free to change.
\<close>

definition reg_frame :: "(event \<Rightarrow> bool) \<Rightarrow> world \<Rightarrow> world \<Rightarrow> bool" where
  "reg_frame P w w' =
     ((\<exists>evs. events w' = events w @ evs \<and> list_all P evs)
      \<and> set (keys_of w) \<subseteq> set (keys_of w')
      \<and> (distinct (keys_of w) \<longrightarrow> distinct (keys_of w')))"

text \<open>Every external call but a download of the media with the given key.\<close>

definition no_download :: "string \<Rightarrow> event \<Rightarrow> bool" where
  "no_download key e = (case e of EvDownload k u \<Rightarrow> k \<noteq> key | _ \<Rightarrow> True)"

text \<open>A source whose newer direction returns one post of two media.\<close>

definition demo_env_big :: env where
  "demo_env_big =
     demo_env\<lparr>listTweetsWithMedia_at :=
       (\<lambda>n params.
          if p_direction params = Newer
          then Inr \<lparr>tweets = [demo_tweet2], nextCursor = None\<rparr>
          else Inr \<lparr>tweets = [], nextCursor = None\<rparr>)\<rparr>"

text \<open>A world in which the account \<open>alice\<close> has a cursor and an expired cooldown.\<close>

definition demo_world_cursor :: world where
  "demo_world_cursor =
     demo_world\<lparr>account_state :=
       [''alice'' \<mapsto> \<lparr>row_username = ''alice'', latest_seen_tweet_id = Some ''5'',
                      backfill_cursor = Some ''cursor-1'', backfill_done = 0,
                      rate_limited_until = Some 1000, updated_at = 500\<rparr>],
       tick := 3\<rparr>"

text \<open>The state that \<^verbatim>\<open>getAccountState\<close> reads for \<open>alice\<close> there.\<close>

definition demo_state_cursor :: AccountState where
  "demo_state_cursor =
     \<lparr>username = ''alice'', latestSeenTweetId = Some ''5'',
      backfillCursor = Some ''cursor-1'', backfillDone = False,
      rateLimitedUntil = Some 1000, updatedAt = 500\<rparr>"



text \<open>The same world with the backfill of \<open>alice\<close> completed.\<close>

definition demo_world_done :: world where
  "demo_world_done =
     demo_world\<lparr>account_state :=
       [''alice'' \<mapsto> \<lparr>row_username = ''alice'', latest_seen_tweet_id = Some ''5'',
                      backfill_cursor = None, backfill_done = 1,
                      rate_limited_until = Some 1000, updated_at = 500\<rparr>],
       tick := 3\<rparr>"

definition demo_state_done :: AccountState where
  "demo_state_done =
     \<lparr>username = ''alice'', latestSeenTweetId = Some ''5'',
      backfillCursor = None, backfillDone = True,
      rateLimitedUntil = Some 1000, updatedAt = 500\<rparr>"

text \<open>A sink that numbers the messages of one call from 100 on, and the two files that the
  post \<open>demo_tweet2\<close> gives.\<close>

definition demo_env_ids :: env where
  "demo_env_ids =
     demo_env\<lparr>sendFile_at :=
       (\<lambda>n files caption. Inr (Messages (map (\<lambda>i. Some (100 + int i)) [0..<length files])))\<rparr>"

definition demo_file_b :: LocalMediaFile where
  "demo_file_b =
     \<lparr>mediaKey = ''2::https://example.com/b.jpg'',
      mediaUrl = ''https://example.com/b.jpg'', mediaType = Photo,
      path = ''/tmp/work/alice/2::https://example.com/b.jpg.jpg'', fileSizeBytes = 10\<rparr>"

definition demo_file_c :: LocalMediaFile where
  "demo_file_c =
     \<lparr>mediaKey = ''2::https://example.com/c.jpg'',
      mediaUrl = ''https://example.com/c.jpg'', mediaType = Photo,
      path = ''/tmp/work/alice/2::https://example.com/c.jpg.jpg'', fileSizeBytes = 10\<rparr>"

text \<open>The rows of the registry for one key, and the external calls that do not send a given
  file.\<close>

definition rows_of :: "string \<Rightarrow> world \<Rightarrow> StoredMediaRecord list" where
  "rows_of key w = filter (\<lambda>r. rec_mediaKey r = key) (media_registry w)"

definition no_send_of :: "string \<Rightarrow> event \<Rightarrow> bool" where
  "no_send_of p e = (case e of EvSendFile ps cap \<Rightarrow> p \<notin> set ps | _ \<Rightarrow> True)"

text \<open>A post of a photo and a video, processed with the size cap of five bytes: the photo is
  sent, the video is skipped.\<close>

definition demo_photo :: TweetMedia where
  "demo_photo = \<lparr>media_id = ''m4'', media_url = ''https://example.com/p.jpg'', media_type = Photo\<rparr>"

definition demo_mixed_tweet :: MediaTweet where
  "demo_mixed_tweet =
     \<lparr>tweet_id = ''4'', tweet_username = ''alice'', tweet_text = [],
      tweetUrl = ''https://x.com/alice/status/4'',
      postedAt = ''2024-01-04T00:00:00.000Z'',
      media = [demo_photo, demo_video]\<rparr>"

definition demo_photo_file :: LocalMediaFile where
  "demo_photo_file =
     \<lparr>mediaKey = ''4::https://example.com/p.jpg'', mediaUrl = ''https://example.com/p.jpg'',
      mediaType = Photo, path = ''/tmp/work/alice/4::https://example.com/p.jpg.jpg'',
      fileSizeBytes = 10\<rparr>"

definition demo_mixed_video_file :: LocalMediaFile where
  "demo_mixed_video_file =
     \<lparr>mediaKey = ''4::https://example.com/v.mp4'', mediaUrl = ''https://example.com/v.mp4'',
      mediaType = Video, path = ''/tmp/work/alice/4::https://example.com/v.mp4.mp4'',
      fileSizeBytes = 10\<rparr>"

section \<open>Auxiliary lemmas\<close>

lemma frame_refl: "frame P w w"
  by (simp add: frame_def)

lemma frame_trans: "frame P a b \<Longrightarrow> frame P b c \<Longrightarrow> frame P a c"
  unfolding frame_def by (auto simp: list_all_iff)

lemma frame_Date_now: "frame P w (snd (Date_now E w))"
  by (simp add: frame_def Date_now_def keys_of_def)

lemma frame_removeFileSafe: "P (EvRemoveFile p) \<Longrightarrow> frame P w (snd (removeFileSafe E p w))"
  by (simp add: frame_def removeFileSafe_def keys_of_def)

lemma frame_downloadMedia:
  "P (EvDownload key url) \<Longrightarrow> frame P w (snd (downloadMedia E key url t dir w))"
  by (simp add: frame_def downloadMedia_def keys_of_def Let_def split: sum.splits)

declare withRetry_loop.simps [simp del]

lemma frame_withRetry_loop:
  "(\<And>w. frame P w (snd (fn w))) \<Longrightarrow> frame P w (snd (withRetry_loop fn retries attempt w))"
proof (induction fn retries attempt w rule: withRetry_loop.induct)
  case (1 fn retries attempt w)
  have step: "frame P w (snd (fn w))" by (rule "1.prems")
  show ?case
  proof (cases "fn w")
    case (Pair r w1)
    with step have f1: "frame P w w1" by simp
    show ?thesis
    proof (cases r)
      case (Inr v)
      with Pair f1 show ?thesis
        by (simp add: withRetry_loop.simps[of fn retries attempt w] frame_refl)
    next
      case (Inl e)
      show ?thesis
      proof (cases "attempt < retries")
        case False
        with Inl Pair f1 show ?thesis
          by (auto simp add: withRetry_loop.simps[of fn retries attempt w] frame_refl)
      next
        case True
        then have le: "attempt \<le> retries" and ne: "attempt \<noteq> retries" by auto
        have "frame P w1 (snd (withRetry_loop fn retries (Suc attempt) w1))"
          using "1.IH"[OF le Pair[symmetric] Inl ne] "1.prems" by simp
        with f1 have "frame P w (snd (withRetry_loop fn retries (Suc attempt) w1))"
          by (rule frame_trans)
        with Inl Pair le ne show ?thesis
          by (simp add: withRetry_loop.simps[of fn retries attempt w])
      qed
    qed
  qed
qed

lemma withRetry_loop_Inr:
  "withRetry_loop fn retries attempt w = (Inr v, w2) \<Longrightarrow> \<exists>w'. fn w' = (Inr v, w2)"
proof (induction fn retries attempt w rule: withRetry_loop.induct)
  case (1 fn retries attempt w)
  show ?case
  proof (cases "fn w")
    case (Pair r w1)
    show ?thesis
    proof (cases r)
      case (Inr v')
      with Pair "1.prems" show ?thesis
        by (auto simp add: withRetry_loop.simps[of fn retries attempt w] split: if_splits)
    next
      case (Inl e)
      show ?thesis
      proof (cases "attempt < retries")
        case False
        with Inl Pair "1.prems" show ?thesis
          by (auto simp add: withRetry_loop.simps[of fn retries attempt w] split: if_splits)
      next
        case True
        then have le: "attempt \<le> retries" and ne: "attempt \<noteq> retries" by auto
        from "1.prems" Inl Pair le ne
        have "withRetry_loop fn retries (Suc attempt) w1 = (Inr v, w2)"
          by (simp add: withRetry_loop.simps[of fn retries attempt w])
        from "1.IH"[OF le Pair[symmetric] Inl ne this] show ?thesis .
      qed
    qed
  qed
qed

lemma isMediaUploaded_keys: "isMediaUploaded k w = (k \<in> set (keys_of w))"
  by (simp add: isMediaUploaded_def keys_of_def)

lemma keys_markMediaUploaded:
  "keys_of (markMediaUploaded r w) = filter (\<lambda>k. k \<noteq> rec_mediaKey r) (keys_of w) @ [rec_mediaKey r]"
  by (simp add: keys_of_def markMediaUploaded_def filter_map comp_def)

lemma frame_markMediaUploaded: "frame P w (markMediaUploaded r w)"
  unfolding frame_def
  by (auto simp add: keys_markMediaUploaded) (auto simp add: markMediaUploaded_def)

lemma downloadMedia_Inr:
  "downloadMedia E key url t dir w = (Inr d, w1) \<Longrightarrow>
     mediaKey d = key \<and> mediaUrl d = url \<and> mediaType d = t
     \<and> path d = path_join dir (key @ extensionByType t)"
  by (auto simp add: downloadMedia_def Let_def split: sum.splits if_splits)

lemma withRetry_downloadMedia_Inr:
  assumes "withRetry (downloadMedia E key url t dir) n w = (Inr d, w1)"
  shows "mediaKey d = key \<and> mediaUrl d = url \<and> mediaType d = t
     \<and> path d = path_join dir (key @ extensionByType t)"
proof -
  from assms obtain w' where "downloadMedia E key url t dir w' = (Inr d, w1)"
    unfolding withRetry_def by (blast dest: withRetry_loop_Inr)
  then show ?thesis by (rule downloadMedia_Inr)
qed

lemma frame_withRetry:
  "(\<And>w. frame P w (snd (fn w))) \<Longrightarrow> frame P w (snd (withRetry fn n w))"
  unfolding withRetry_def by (rule frame_withRetry_loop)

lemma frame_processMedia:
  assumes dl: "\<not> isMediaUploaded (makeMediaKey E (tweet_id tweet) (media_url m)) w
               \<Longrightarrow> P (EvDownload (makeMediaKey E (tweet_id tweet) (media_url m)) (media_url m))"
    and rm: "\<And>p. P (EvRemoveFile p)"
  shows "frame P w (snd (processMedia E C tweet user m res files w))"
proof (cases "isMediaUploaded (makeMediaKey E (tweet_id tweet) (media_url m)) w")
  case True
  then show ?thesis by (simp add: processMedia_def frame_refl)
next
  case False
  let ?key = "makeMediaKey E (tweet_id tweet) (media_url m)"
  let ?dl = "withRetry (downloadMedia E ?key (media_url m) (media_type m)
                   (path_join (downloadTmpDir C) user)) 2 w"
  have f1: "frame P w (snd ?dl)"
    by (rule frame_withRetry) (rule frame_downloadMedia, rule dl[OF False])
  obtain r w1 where dlr: "?dl = (r, w1)" by (cases ?dl)
  with f1 have f1': "frame P w w1" by simp
  show ?thesis
  proof (cases r)
    case (Inl e)
    with False dlr f1' show ?thesis by (simp add: processMedia_def)
  next
    case (Inr d)
    show ?thesis
    proof (cases "mediaType d \<noteq> Photo \<and> fileSizeBytes d > maxUploadVideoBytes C")
      case False
      with \<open>\<not> isMediaUploaded ?key w\<close> dlr Inr f1' show ?thesis
        by (auto simp add: processMedia_def)
    next
      case True
      obtain stamp w2 where dn: "Date_now E w1 = (stamp, w2)" by (cases "Date_now E w1")
      have f2: "frame P w1 w2" using frame_Date_now[of P w1 E] dn by simp
      let ?w3 = "markMediaUploaded
                           \<lparr>rec_mediaKey = ?key, rec_tweetId = tweet_id tweet,
                            rec_username = user, rec_mediaUrl = media_url m,
                            rec_mediaType = media_type m, rec_uploadedAt = stamp,
                            rec_telegramMessageIds = [], rec_status = SkippedOversize\<rparr> w2"
      have f3: "frame P w2 ?w3" by (rule frame_markMediaUploaded)
      have f4: "frame P ?w3 (snd (removeFileSafe E (path d) ?w3))"
        by (rule frame_removeFileSafe) (rule rm)
      have f: "frame P w (snd (removeFileSafe E (path d) ?w3))"
        using f1' f2 f3 f4 by (blast intro: frame_trans)
      from True \<open>\<not> isMediaUploaded ?key w\<close> dlr Inr dn f show ?thesis
        by (auto simp add: processMedia_def Let_def split: prod.splits sum.splits)
    qed
  qed
qed

lemma processMedia_files:
  assumes "processMedia E C tweet user m res files w = ((r, res1, files1), w1)"
  shows "uploaded res1 = uploaded res \<and> failed res1 = failed res
         \<and> skipped res \<le> skipped res1
         \<and> (files1 = files \<or>
            (\<exists>d. files1 = files @ [d] \<and> file_ok C user w d
                  \<and> mediaKey d = makeMediaKey E (tweet_id tweet) (media_url m)))"
proof (cases "isMediaUploaded (makeMediaKey E (tweet_id tweet) (media_url m)) w")
  case True
  with assms show ?thesis by (auto simp add: processMedia_def)
next
  case False
  let ?key = "makeMediaKey E (tweet_id tweet) (media_url m)"
  let ?dl = "withRetry (downloadMedia E ?key (media_url m) (media_type m)
                   (path_join (downloadTmpDir C) user)) 2 w"
  obtain r0 w0 where dlr: "?dl = (r0, w0)" by (cases ?dl)
  show ?thesis
  proof (cases r0)
    case (Inl e)
    with False dlr assms show ?thesis by (auto simp add: processMedia_def)
  next
    case (Inr d)
    from withRetry_downloadMedia_Inr[OF dlr[unfolded Inr]]
    have d: "mediaKey d = ?key" "mediaType d = media_type m"
      "path d = path_join (path_join (downloadTmpDir C) user) (?key @ extensionByType (media_type m))"
      by auto
    with False have ok: "file_ok C user w d" by (simp add: file_ok_def)
    from False dlr Inr assms ok d(1) show ?thesis
      by (auto simp add: processMedia_def Let_def split: prod.splits sum.splits if_splits)
  qed
qed

lemma frame_keys_mono: "frame P w w' \<Longrightarrow> isMediaUploaded k w \<Longrightarrow> isMediaUploaded k w'"
  by (auto simp add: frame_def isMediaUploaded_keys)

lemma frame_weaken: "frame P w w' \<Longrightarrow> (\<And>e. P e \<Longrightarrow> Q e) \<Longrightarrow> frame Q w w'"
  by (auto simp add: frame_def list_all_iff)

lemma file_ok_mono: "frame P w w' \<Longrightarrow> file_ok C user w' d \<Longrightarrow> file_ok C user w d"
  by (auto simp add: file_ok_def dest: frame_keys_mono)

lemma frame_media_loop:
  assumes rm: "\<And>p. P (EvRemoveFile p)"
  shows "(\<forall>m\<in>set ms. \<not> isMediaUploaded (makeMediaKey E (tweet_id tweet) (media_url m)) w
            \<longrightarrow> P (EvDownload (makeMediaKey E (tweet_id tweet) (media_url m)) (media_url m)))
         \<Longrightarrow> frame P w (snd (media_loop E C tweet user ms res files w))"
proof (induction ms arbitrary: res files w)
  case Nil
  show ?case by (simp add: frame_refl)
next
  case (Cons m ms)
  obtain r res1 files1 w1 where pm:
    "processMedia E C tweet user m res files w = ((r, res1, files1), w1)"
    by (cases "processMedia E C tweet user m res files w") auto
  have f1: "frame P w w1"
    using frame_processMedia[of E tweet m w P C user res files] Cons.prems rm pm by simp
  show ?case
  proof (cases r)
    case (Some e)
    with pm f1 show ?thesis by simp
  next
    case None
    have "\<forall>m\<in>set ms. \<not> isMediaUploaded (makeMediaKey E (tweet_id tweet) (media_url m)) w1
            \<longrightarrow> P (EvDownload (makeMediaKey E (tweet_id tweet) (media_url m)) (media_url m))"
      using Cons.prems f1 by (auto dest: frame_keys_mono)
    from Cons.IH[OF this] have "frame P w1 (snd (media_loop E C tweet user ms res1 files1 w1))" .
    with f1 have "frame P w (snd (media_loop E C tweet user ms res1 files1 w1))"
      by (rule frame_trans)
    with pm None show ?thesis by simp
  qed
qed

lemma media_loop_files:
  "media_loop E C tweet user ms res files w = ((r, res1, files1), w1) \<Longrightarrow>
     uploaded res1 = uploaded res \<and> failed res1 = failed res \<and> skipped res \<le> skipped res1
     \<and> (\<exists>new. files1 = files @ new \<and> length new \<le> length ms
           \<and> (\<forall>d\<in>set new. file_ok C user w d
                 \<and> (\<exists>m\<in>set ms. mediaKey d = makeMediaKey E (tweet_id tweet) (media_url m))))"
proof (induction ms arbitrary: res files w)
  case Nil
  then show ?case by simp
next
  case (Cons m ms)
  obtain r0 res0 files0 w0 where pm:
    "processMedia E C tweet user m res files w = ((r0, res0, files0), w0)"
    by (cases "processMedia E C tweet user m res files w") auto
  note pf = processMedia_files[OF pm]
  have f1: "frame (\<lambda>e. True) w w0"
    using frame_processMedia[of E tweet m w "\<lambda>e. True" C user res files] pm by simp
  show ?case
  proof (cases r0)
    case (Some e)
    with pm Cons.prems pf show ?thesis by auto
  next
    case None
    with pm Cons.prems
    have rec: "media_loop E C tweet user ms res0 files0 w0 = ((r, res1, files1), w1)" by simp
    from Cons.IH[OF rec] obtain new where
      n: "uploaded res1 = uploaded res0" "failed res1 = failed res0" "skipped res0 \<le> skipped res1"
         "files1 = files0 @ new" "length new \<le> length ms"
         "\<forall>d\<in>set new. file_ok C user w0 d
             \<and> (\<exists>m\<in>set ms. mediaKey d = makeMediaKey E (tweet_id tweet) (media_url m))"
      by auto
    have ok: "\<forall>d\<in>set new. file_ok C user w d"
      using n(6) f1 by (auto dest: file_ok_mono)
    from pf show ?thesis
    proof (elim conjE disjE exE)
      assume "files0 = files" "uploaded res0 = uploaded res" "failed res0 = failed res"
        "skipped res \<le> skipped res0"
      with n ok show ?thesis by auto
    next
      fix d assume "files0 = files @ [d]" "file_ok C user w d"
        "mediaKey d = makeMediaKey E (tweet_id tweet) (media_url m)"
        "uploaded res0 = uploaded res" "failed res0 = failed res"
        "skipped res \<le> skipped res0"
      with n ok show ?thesis
        by (intro conjI exI[of _ "d # new"]) auto
    qed
  qed
qed

lemma frame_mark_loop: "frame P w (snd (mark_loop E tweet user ids fs res w))"
proof (induction fs arbitrary: res w)
  case Nil
  show ?case by (simp add: frame_refl)
next
  case (Cons f fs)
  obtain stamp w1 where dn: "Date_now E w = (stamp, w1)" by (cases "Date_now E w")
  have f1: "frame P w w1" using frame_Date_now[of P w E] dn by simp
  let ?w2 = "markMediaUploaded
                 \<lparr>rec_mediaKey = mediaKey f, rec_tweetId = tweet_id tweet,
                  rec_username = user, rec_mediaUrl = mediaUrl f,
                  rec_mediaType = mediaType f, rec_uploadedAt = stamp,
                  rec_telegramMessageIds = ids, rec_status = Uploaded\<rparr> w1"
  have f2: "frame P w1 ?w2" by (rule frame_markMediaUploaded)
  have "frame P ?w2 (snd (mark_loop E tweet user ids fs (res\<lparr>uploaded := uploaded res + 1\<rparr>) ?w2))"
    by (rule Cons.IH)
  with f1 f2 have "frame P w (snd (mark_loop E tweet user ids fs (res\<lparr>uploaded := uploaded res + 1\<rparr>) ?w2))"
    by (blast intro: frame_trans)
  with dn show ?case by (simp add: Let_def)
qed

lemma mark_loop_result:
  "fst (mark_loop E tweet user ids fs res w) =
     res\<lparr>uploaded := uploaded res + int (length fs)\<rparr>"
proof (induction fs arbitrary: res w)
  case Nil
  show ?case by simp
next
  case (Cons f fs)
  show ?case by (simp add: Let_def split: prod.splits add: Cons.IH)
qed

lemma frame_remove_all:
  assumes rm: "\<And>p. P (EvRemoveFile p)"
  shows "frame P w (snd (remove_all E ps w))"
proof (induction ps arbitrary: w)
  case Nil
  show ?case by (simp add: frame_refl)
next
  case (Cons p ps)
  obtain r w1 where r1: "removeFileSafe E p w = (r, w1)" by (cases "removeFileSafe E p w")
  have f1: "frame P w w1" using frame_removeFileSafe[of P p w E] rm r1 by simp
  have "frame P w1 (snd (remove_all E ps w1))" by (rule Cons.IH)
  with f1 have "frame P w (snd (remove_all E ps w1))" by (rule frame_trans)
  with r1 show ?case by (auto split: prod.splits)
qed

lemma frame_cleanup:
  assumes rm: "\<And>p. P (EvRemoveFile p)"
  shows "frame P w (snd (cleanup E fs res w))"
  using frame_remove_all[of P w E "map path fs"] rm
  by (auto simp add: cleanup_def split: prod.splits option.splits)

lemma cleanup_result: "cleanup E fs res w = (Inr r, w1) \<Longrightarrow> r = res"
  by (auto simp add: cleanup_def split: prod.splits option.splits)

lemma frame_ensureConnected: "P EvConnect \<Longrightarrow> frame P w (snd (ensureConnected E w))"
  by (auto simp add: ensureConnected_def frame_def keys_of_def Let_def split: sum.splits)

lemma frame_sendTextMessage:
  "P EvConnect \<Longrightarrow> P (EvSendText msg) \<Longrightarrow> frame P w (snd (sendTextMessage E msg w))"
proof -
  assume c: "P EvConnect" and t: "P (EvSendText msg)"
  obtain r w1 where ec: "ensureConnected E w = (r, w1)" by (cases "ensureConnected E w")
  have f1: "frame P w w1" using frame_ensureConnected[of P w E] c ec by simp
  have f2: "frame P w1 (w1\<lparr>events := events w1 @ [EvSendText msg], tick := Suc (tick w1)\<rparr>)"
    using t by (simp add: frame_def keys_of_def)
  from f1 f2 have "frame P w (w1\<lparr>events := events w1 @ [EvSendText msg], tick := Suc (tick w1)\<rparr>)"
    by (rule frame_trans)
  with ec f1 show ?thesis by (auto simp add: sendTextMessage_def split: sum.splits)
qed

declare chunkArray.simps [simp del]

lemma chunkArray_subset: "c \<in> set (chunkArray xs n) \<Longrightarrow> set c \<subseteq> set xs"
proof (induction xs n rule: chunkArray.induct)
  case (1 items n)
  show ?case
  proof (cases "n = 0 \<or> items = []")
    case True
    with "1.prems" show ?thesis by (simp add: chunkArray.simps[of items n])
  next
    case False
    with "1.prems" have "c = take n items \<or> c \<in> set (chunkArray (drop n items) n)"
      by (simp add: chunkArray.simps[of items n])
    then show ?thesis
    proof
      assume "c = take n items"
      then show ?thesis by (auto dest: in_set_takeD)
    next
      assume "c \<in> set (chunkArray (drop n items) n)"
      from "1.IH"[OF False this] show ?thesis by (auto dest: in_set_dropD)
    qed
  qed
qed

lemma frame_send_chunks:
  "(\<And>chunk c. chunk \<in> set chunks \<Longrightarrow> P (EvSendFile (map path chunk) c))
     \<Longrightarrow> frame P w (snd (send_chunks E input chunks i acc w))"
proof (induction chunks arbitrary: i acc w)
  case Nil
  show ?case by (simp add: frame_refl)
next
  case (Cons chunk rest)
  show ?case
  proof (cases "toCaption E input i")
    case (Inl e)
    then show ?thesis by (simp add: frame_refl)
  next
    case (Inr caption)
    let ?w1 = "w\<lparr>events := events w @ [EvSendFile (map path chunk) caption], tick := Suc (tick w)\<rparr>"
    have f1: "frame P w ?w1"
      using Cons.prems[of chunk caption] by (simp add: frame_def keys_of_def)
    show ?thesis
    proof (cases "sendFile_at E (tick w) (map path chunk) caption")
      case (Inl e)
      with Inr f1 show ?thesis by (simp add: Let_def)
    next
      case r: (Inr result)
      have "frame P ?w1 (snd (send_chunks E input rest (Suc i) (acc @ result_messageIds result) ?w1))"
        by (rule Cons.IH) (rule Cons.prems, simp)
      with f1 have "frame P w (snd (send_chunks E input rest (Suc i) (acc @ result_messageIds result) ?w1))"
        by (rule frame_trans)
      with Inr r show ?thesis by (simp add: Let_def)
    qed
  qed
qed

lemma frame_sendTweetMediaGroup:
  assumes c: "P EvConnect"
    and s: "\<And>ps cap. set ps \<subseteq> path ` set (g_mediaFiles input) \<Longrightarrow> P (EvSendFile ps cap)"
  shows "frame P w (snd (sendTweetMediaGroup E input w))"
proof -
  obtain r w1 where ec: "ensureConnected E w = (r, w1)" by (cases "ensureConnected E w")
  have f1: "frame P w w1" using frame_ensureConnected[of P w E] c ec by simp
  have "frame P w1 (snd (send_chunks E input (chunkArray (g_mediaFiles input) 10) 0 [] w1))"
  proof (rule frame_send_chunks)
    fix chunk cap assume "chunk \<in> set (chunkArray (g_mediaFiles input) 10)"
    then have "set chunk \<subseteq> set (g_mediaFiles input)" by (rule chunkArray_subset)
    then have "set (map path chunk) \<subseteq> path ` set (g_mediaFiles input)" by auto
    then show "P (EvSendFile (map path chunk) cap)" by (rule s)
  qed
  with f1 have "frame P w (snd (send_chunks E input (chunkArray (g_mediaFiles input) 10) 0 [] w1))"
    by (rule frame_trans)
  with ec f1 show ?thesis by (auto simp add: sendTweetMediaGroup_def split: sum.splits)
qed

lemma frame_processTweet:
  assumes rm: "\<And>p. P (EvRemoveFile p)"
    and dl: "\<forall>m\<in>set (media tweet).
               \<not> isMediaUploaded (makeMediaKey E (tweet_id tweet) (media_url m)) w
               \<longrightarrow> P (EvDownload (makeMediaKey E (tweet_id tweet) (media_url m)) (media_url m))"
    and c: "P EvConnect"
    and sf: "\<And>ps cap. (\<forall>p\<in>set ps. \<exists>d. file_ok C user w d \<and> p = path d) \<Longrightarrow> P (EvSendFile ps cap)"
  shows "frame P w (snd (processTweet E C tweet user w))"
proof -
  let ?zero = "\<lparr>uploaded = 0, skipped = 0, failed = 0\<rparr>"
  obtain r res files w1 where ml:
    "media_loop E C tweet user (media tweet) ?zero [] w = ((r, res, files), w1)"
    by (cases "media_loop E C tweet user (media tweet) ?zero [] w") auto
  have f1: "frame P w w1"
    using frame_media_loop[of P "media tweet" E tweet w C user ?zero "[]"] rm dl ml by simp
  from media_loop_files[OF ml] have ok: "\<forall>d\<in>set files. file_ok C user w d" by auto
  have cl: "\<And>res' w'. frame P w w' \<Longrightarrow> frame P w (snd (cleanup E files res' w'))"
    using frame_cleanup[of P] rm by (blast intro: frame_trans)
  show ?thesis
  proof (cases r)
    case (Some e)
    with ml cl[OF f1] show ?thesis by (simp add: processTweet_def)
  next
    case None
    show ?thesis
    proof (cases "files = []")
      case True
      with None ml cl[OF f1] show ?thesis by (simp add: processTweet_def)
    next
      case False
      let ?input = "\<lparr>g_tweetUrl = tweetUrl tweet, g_username = user,
                        g_postedAt = postedAt tweet, g_mediaFiles = files\<rparr>"
      obtain sr w2 where snd: "withRetry (sendTweetMediaGroup E ?input) 2 w1 = (sr, w2)"
        by (cases "withRetry (sendTweetMediaGroup E ?input) 2 w1")
      have sfile: "P (EvSendFile ps cap)" if "set ps \<subseteq> path ` set (g_mediaFiles ?input)" for ps cap
      proof -
        from that ok have "\<forall>p\<in>set ps. \<exists>d. file_ok C user w d \<and> p = path d" by auto
        then show ?thesis by (rule sf)
      qed
      have "frame P w' (snd (sendTweetMediaGroup E ?input w'))" for w'
        using frame_sendTweetMediaGroup[where P = P and input = ?input and w = w' and E = E]
          c sfile by blast
      then have "frame P w1 (snd (withRetry (sendTweetMediaGroup E ?input) 2 w1))"
        by (rule frame_withRetry[where P = P])
      with snd f1 have f2: "frame P w w2" by (auto intro: frame_trans)
      show ?thesis
      proof (cases sr)
        case (Inl e)
        with None False ml snd cl[OF f2] show ?thesis by (simp add: processTweet_def)
      next
        case (Inr ids)
        obtain res1 w3 where mk: "mark_loop E tweet user ids files res w2 = (res1, w3)"
          by (cases "mark_loop E tweet user ids files res w2")
        have "frame P w2 w3" using frame_mark_loop[of P w2 E tweet user ids files res] mk by simp
        with f2 have "frame P w w3" by (rule frame_trans)
        from cl[OF this] None False ml snd Inr mk show ?thesis
          by (simp add: processTweet_def)
      qed
    qed
  qed
qed

lemma path_join_key_inj:
  "path_join dir (k1 @ extensionByType t1) = path_join dir (k2 @ extensionByType t2) \<Longrightarrow> k1 = k2"
  by (auto simp add: path_join_def extensionByType_def split: if_splits)

lemma frame_new_events: "frame P w w' \<Longrightarrow> list_all P (new_events w w')"
  by (auto simp add: frame_def new_events_def)

lemma total_media_append [simp]: "total_media (xs @ ys) = total_media xs + total_media ys"
  by (simp add: total_media_def)

lemma total_media_simps [simp]:
  "total_media [] = 0" "total_media (t # ts) = media_count t + total_media ts"
  by (simp_all add: total_media_def)

lemma select_loop_stop: "b \<le> 0 \<Longrightarrow> select_loop b sel cands = sel"
  by (cases cands) simp_all

lemma select_loop_bound:
  "total_media (select_loop b sel cands) \<le> total_media sel + max b 0
   \<or> (sel = [] \<and> (\<exists>t. select_loop b sel cands = [t] \<and> b < media_count t))"
proof (induction cands arbitrary: b sel)
  case Nil
  show ?case by simp
next
  case (Cons t rest)
  show ?case
  proof (cases "b \<le> 0")
    case True
    then show ?thesis by simp
  next
    case pos: False
    show ?thesis
    proof (cases "media_count t > b \<and> sel \<noteq> []")
      case True
      with pos Cons.IH[of b sel] show ?thesis
        by (auto simp add: media_count_def Let_def)
    next
      case False
      then have eq: "select_loop b sel (t # rest) = select_loop (b - media_count t) (sel @ [t]) rest"
        using pos by (auto simp add: media_count_def Let_def)
      show ?thesis
      proof (cases "media_count t \<le> b")
        case True
        with Cons.IH[of "b - media_count t" "sel @ [t]"] eq pos show ?thesis by auto
      next
        case big: False
        with False have "sel = []" by auto
        moreover from big have "select_loop (b - media_count t) (sel @ [t]) rest = sel @ [t]"
          by (intro select_loop_stop) simp
        ultimately show ?thesis using eq big by auto
      qed
    qed
  qed
qed

lemma processTweet_uploaded:
  assumes "processTweet E C tweet user w = (Inr r, w')"
  shows "0 \<le> uploaded r \<and> uploaded r \<le> media_count tweet"
proof -
  let ?zero = "\<lparr>uploaded = 0, skipped = 0, failed = 0\<rparr>"
  obtain e res files w1 where ml:
    "media_loop E C tweet user (media tweet) ?zero [] w = ((e, res, files), w1)"
    by (cases "media_loop E C tweet user (media tweet) ?zero [] w") auto
  from media_loop_files[OF ml] have u: "uploaded res = 0" and len: "length files \<le> length (media tweet)"
    by auto
  show ?thesis
  proof (cases e)
    case (Some err)
    with ml assms have "r = res\<lparr>failed := failed res + 1\<rparr>"
      by (auto simp add: processTweet_def dest: cleanup_result)
    with u show ?thesis by (simp add: media_count_def)
  next
    case None
    show ?thesis
    proof (cases "files = []")
      case True
      with None ml assms have "r = res" by (auto simp add: processTweet_def dest: cleanup_result)
      with u show ?thesis by (simp add: media_count_def)
    next
      case False
      let ?input = "\<lparr>g_tweetUrl = tweetUrl tweet, g_username = user,
                        g_postedAt = postedAt tweet, g_mediaFiles = files\<rparr>"
      obtain sr w2 where snd: "withRetry (sendTweetMediaGroup E ?input) 2 w1 = (sr, w2)"
        by (cases "withRetry (sendTweetMediaGroup E ?input) 2 w1")
      show ?thesis
      proof (cases sr)
        case (Inl err)
        with None False ml snd assms have "r = res\<lparr>failed := failed res + 1\<rparr>"
          by (auto simp add: processTweet_def dest: cleanup_result)
        with u show ?thesis by (simp add: media_count_def)
      next
        case (Inr ids)
        obtain res1 w3 where mk: "mark_loop E tweet user ids files res w2 = (res1, w3)"
          by (cases "mark_loop E tweet user ids files res w2")
        with mark_loop_result[of E tweet user ids files res w2]
        have r1: "res1 = res\<lparr>uploaded := uploaded res + int (length files)\<rparr>" by simp
        from None False ml snd Inr mk assms have "r = res1"
          by (auto simp add: processTweet_def dest: cleanup_result)
        with r1 u len show ?thesis by (simp add: media_count_def)
      qed
    qed
  qed
qed

lemma process_selected_uploaded:
  "process_selected E C user sel totals w = (Inr r, w') \<Longrightarrow>
     uploaded totals \<le> uploaded r \<and> uploaded r \<le> uploaded totals + total_media sel"
proof (induction sel arbitrary: totals w)
  case Nil
  then show ?case by simp
next
  case (Cons t rest)
  obtain pr w1 where pt: "processTweet E C t user w = (pr, w1)" by (cases "processTweet E C t user w")
  show ?case
  proof (cases pr)
    case (Inl e)
    with pt Cons.prems show ?thesis by simp
  next
    case (Inr p)
    from processTweet_uploaded[OF pt[unfolded Inr]]
    have b: "0 \<le> uploaded p" "uploaded p \<le> media_count t" by auto
    let ?tot = "totals\<lparr>uploaded := uploaded totals + uploaded p,
                    skipped := skipped totals + skipped p,
                    failed := failed totals + failed p\<rparr>"
    from pt Inr Cons.prems have "process_selected E C user rest ?tot w1 = (Inr r, w')" by simp
    from Cons.IH[OF this] b show ?thesis by simp
  qed
qed

lemma frame_listTweetsWithMedia:
  "P (EvListTweets params) \<Longrightarrow> frame P w (snd (listTweetsWithMedia E params w))"
  by (simp add: frame_def listTweetsWithMedia_def keys_of_def)

lemma frame_collectIncrementalTweets:
  assumes "\<And>p. P (EvListTweets p)"
  shows "frame P w (snd (collectIncrementalTweets E C user latest w))"
proof -
  let ?p = "\<lparr>p_username = user, p_cursor = None, p_direction = Newer,
              p_limitPages = backfillPagesPerRun C\<rparr>"
  have "frame P w (snd (listTweetsWithMedia E ?p w))"
    by (rule frame_listTweetsWithMedia) (rule assms)
  then show ?thesis
    by (cases "listTweetsWithMedia E ?p w")
       (auto simp add: collectIncrementalTweets_def split: sum.splits)
qed

lemma frame_collectBackfillTweets:
  assumes "\<And>p. P (EvListTweets p)"
  shows "frame P w (snd (collectBackfillTweets E C user cursor w))"
proof -
  let ?p = "\<lparr>p_username = user, p_cursor = cursor, p_direction = Older,
              p_limitPages = backfillPagesPerRun C\<rparr>"
  have "frame P w (snd (listTweetsWithMedia E ?p w))"
    by (rule frame_listTweetsWithMedia) (rule assms)
  then show ?thesis
    by (cases "listTweetsWithMedia E ?p w")
       (auto simp add: collectBackfillTweets_def split: sum.splits)
qed

lemma frame_processTweet_work: "frame work_event w (snd (processTweet E C tweet user w))"
  by (rule frame_processTweet[where P = work_event]) (simp_all add: work_event_def)

lemma frame_process_selected:
  "frame work_event w (snd (process_selected E C user sel totals w))"
proof (induction sel arbitrary: totals w)
  case Nil
  show ?case by (simp add: frame_refl)
next
  case (Cons t rest)
  obtain pr w1 where pt: "processTweet E C t user w = (pr, w1)" by (cases "processTweet E C t user w")
  have f1: "frame work_event w w1" using frame_processTweet_work[of w E C t user] pt by simp
  show ?case
  proof (cases pr)
    case (Inl e)
    with pt f1 show ?thesis by simp
  next
    case (Inr p)
    have "frame work_event w1 (snd (process_selected E C user rest
            (totals\<lparr>uploaded := uploaded totals + uploaded p,
                    skipped := skipped totals + skipped p,
                    failed := failed totals + failed p\<rparr>) w1))"
      by (rule Cons.IH)
    with f1 pt Inr show ?thesis by (auto intro: frame_trans)
  qed
qed

lemma total_media_nonneg: "0 \<le> total_media ts"
  by (induction ts) (simp_all add: media_count_def)

lemma account_try_cases:
  assumes "account_try E C user state summary w = ((r, s), w3)"
    and "sum_uploaded summary = 0"
  shows "(\<exists>inc bf. 0 \<le> sum_uploaded s \<and> sum_uploaded s \<le> total_media (select_tweets E C inc bf))
         \<and> (r \<noteq> None \<longrightarrow> frame work_event w w3)"
proof -
  have zero: "\<exists>inc bf. 0 \<le> sum_uploaded s \<and> sum_uploaded s \<le> total_media (select_tweets E C inc bf)"
    if "sum_uploaded s = 0"
    using that total_media_nonneg[of "select_tweets E C [] []"] by auto
  obtain ir w1 where ci: "collectIncrementalTweets E C user (latestSeenTweetId state) w = (ir, w1)"
    by (cases "collectIncrementalTweets E C user (latestSeenTweetId state) w")
  have f1: "frame work_event w w1"
    using frame_collectIncrementalTweets[of work_event w E C user "latestSeenTweetId state"] ci
    by (simp add: work_event_def)
  show ?thesis
  proof (cases ir)
    case (Inl e)
    with ci assms have "s = summary" "w3 = w1" by (auto simp add: account_try_def)
    with assms(2) f1 zero show ?thesis by simp
  next
    case (Inr incremental)
    let ?bfc = "(if backfillDone state
                 then (Inr \<lparr>bf_tweets = [], bf_nextCursor = None, bf_backfillDone = True\<rparr>, w1)
                 else collectBackfillTweets E C user (backfillCursor state) w1)"
    obtain br w2 where cb: "?bfc = (br, w2)" by (cases ?bfc)
    have "frame work_event w1 w2"
      using frame_collectBackfillTweets[of work_event w1 E C user "backfillCursor state"] cb
      by (auto simp add: work_event_def frame_refl split: if_splits)
    with f1 have f2: "frame work_event w w2" by (rule frame_trans)
    show ?thesis
    proof (cases br)
      case (Inl e)
      with ci Inr cb assms have "sum_uploaded s = 0" "w3 = w2"
        by (auto simp add: account_try_def Let_def split: if_splits)
      with f2 zero show ?thesis by simp
    next
      case bfr: (Inr backfill)
      let ?sel = "select_tweets E C (inc_tweets incremental) (bf_tweets backfill)"
      obtain pr w3' where ps: "process_selected E C user ?sel
                          \<lparr>uploaded = 0, skipped = 0, failed = 0\<rparr> w2 = (pr, w3')"
        by (cases "process_selected E C user ?sel \<lparr>uploaded = 0, skipped = 0, failed = 0\<rparr> w2")
      have "frame work_event w2 w3'"
        using frame_process_selected[of w2 E C user ?sel "\<lparr>uploaded = 0, skipped = 0, failed = 0\<rparr>"] ps
        by simp
      with f2 have f3: "frame work_event w w3'" by (rule frame_trans)
      have try_eq: "account_try E C user state summary w =
         (case pr of
            Inl e \<Rightarrow> ((Some e,
                summary\<lparr>incrementalTweetsCandidates := int (length (inc_tweets incremental)),
                  backfillTweetsCandidates := int (length (bf_tweets backfill)),
                  incrementalTweetsSelected :=
                    int (length (filter (\<lambda>t. tweet_id t \<in> set (map tweet_id (inc_tweets incremental))) ?sel)),
                  backfillTweetsSelected := int (length ?sel) -
                    int (length (filter (\<lambda>t. tweet_id t \<in> set (map tweet_id (inc_tweets incremental))) ?sel))\<rparr>), w3')
          | Inr totals \<Rightarrow> ((None,
                summary\<lparr>incrementalTweetsCandidates := int (length (inc_tweets incremental)),
                  backfillTweetsCandidates := int (length (bf_tweets backfill)),
                  incrementalTweetsSelected :=
                    int (length (filter (\<lambda>t. tweet_id t \<in> set (map tweet_id (inc_tweets incremental))) ?sel)),
                  backfillTweetsSelected := int (length ?sel) -
                    int (length (filter (\<lambda>t. tweet_id t \<in> set (map tweet_id (inc_tweets incremental))) ?sel)),
                  sum_uploaded := uploaded totals, sum_skipped := skipped totals,
                  sum_failed := failed totals, sum_backfillDone := bf_backfillDone backfill\<rparr>),
               upsertAccountState E
                                   \<lparr>in_username = user,
                                    in_latestSeenTweetId = newestSeenId incremental,
                                    in_backfillCursor = bf_nextCursor backfill,
                                    in_backfillDone = bf_backfillDone backfill,
                                    in_rateLimitedUntil = None,
                                    in_updatedAt = None\<rparr> w3'))"
        using ci Inr cb bfr ps
        by (cases "backfillDone state") (simp_all add: account_try_def Let_def split: sum.splits)
      show ?thesis
      proof (cases pr)
        case (Inl e)
        with try_eq assms have "sum_uploaded s = 0" "w3 = w3'" by auto
        with f3 zero show ?thesis by simp
      next
        case tot: (Inr totals)
        from process_selected_uploaded[OF ps[unfolded tot]]
        have b: "0 \<le> uploaded totals" "uploaded totals \<le> total_media ?sel" by auto
        from try_eq tot assms have "r = None" "sum_uploaded s = uploaded totals" by auto
        with b show ?thesis by auto
      qed
    qed
  qed
qed

lemma select_tweets_bound:
  "total_media (select_tweets E C inc bf) \<le> max (maxMediaPerRun C) 0
   \<or> (\<exists>t. select_tweets E C inc bf = [t] \<and> maxMediaPerRun C < media_count t)"
  using select_loop_bound[of "maxMediaPerRun C" "[]" "candidates E inc bf"]
  by (auto simp add: select_tweets_def)

lemma processAccount_uploaded:
  assumes "processAccount E C user w = (Inr s, w')"
  shows "\<exists>inc bf. 0 \<le> sum_uploaded s \<and> sum_uploaded s \<le> total_media (select_tweets E C inc bf)"
proof -
  obtain state w1 where gs: "getAccountState E user w = (state, w1)"
    by (cases "getAccountState E user w")
  obtain now w2 where dn: "Date_now E w1 = (now, w2)" by (cases "Date_now E w1")
  show ?thesis
  proof (cases "case rateLimitedUntil state of None \<Rightarrow> False | Some ts \<Rightarrow> ts > now")
    case True
    with gs dn assms have "sum_uploaded s = 0"
      by (auto simp add: processAccount_def createAccountSummary_def)
    then show ?thesis using total_media_nonneg[of "select_tweets E C [] []"] by auto
  next
    case False
    obtain r s0 w3 where tr:
      "account_try E C user state (createAccountSummary user) w2 = ((r, s0), w3)"
      by (cases "account_try E C user state (createAccountSummary user) w2") auto
    from account_try_cases[OF tr] obtain inc bf where
      b: "0 \<le> sum_uploaded s0" "sum_uploaded s0 \<le> total_media (select_tweets E C inc bf)"
      by (auto simp add: createAccountSummary_def)
    have "sum_uploaded s = sum_uploaded s0"
    proof (cases r)
      case None
      with gs dn False tr assms show ?thesis by (auto simp add: processAccount_def)
    next
      case (Some e)
      with gs dn False tr assms have "account_catch E C user state s0 e w3 = (Inr s, w')"
        by (auto simp add: processAccount_def)
      then show ?thesis
        by (auto simp add: account_catch_def split: if_splits prod.splits sum.splits)
    qed
    with b show ?thesis by auto
  qed
qed

lemma getAccountState_fields:
  "account_state w user = Some row \<Longrightarrow>
     fst (getAccountState E user w) =
       \<lparr>username = row_username row, latestSeenTweetId = latest_seen_tweet_id row,
        backfillCursor = backfill_cursor row, backfillDone = (backfill_done row = 1),
        rateLimitedUntil = rate_limited_until row, updatedAt = updated_at row\<rparr>"
  by (simp add: getAccountState_def)

lemma upsertAccountState_row:
  "account_state (upsertAccountState E st w) =
     (account_state w)(in_username st \<mapsto>
        \<lparr>row_username = in_username st, latest_seen_tweet_id = in_latestSeenTweetId st,
         backfill_cursor = in_backfillCursor st,
         backfill_done = (if in_backfillDone st then 1 else 0),
         rate_limited_until = in_rateLimitedUntil st,
         updated_at = (case in_updatedAt st of Some t \<Rightarrow> t | None \<Rightarrow> now_at E (tick w))\<rparr>)"
  by (auto simp add: upsertAccountState_def nowIso_def Date_now_def Let_def split: option.splits)

lemma upsertAccountState_events: "events (upsertAccountState E st w) = events w"
  by (auto simp add: upsertAccountState_def nowIso_def Date_now_def Let_def split: option.splits)

lemma getAccountState_frame: "frame P w (snd (getAccountState E user w))"
  using frame_Date_now[of P w E]
  by (cases "Date_now E w")
     (auto simp add: getAccountState_def nowIso_def frame_refl split: option.splits)

lemma new_events_trans:
  "frame P a b \<Longrightarrow> frame Q b c \<Longrightarrow> new_events a c = new_events a b @ new_events b c"
  by (auto simp add: frame_def new_events_def)

lemma sendTextMessage_Inr:
  "sendTextMessage E msg w = (Inr u, w4) \<Longrightarrow> \<exists>evs. events w4 = events w @ evs @ [EvSendText msg]"
  by (auto simp add: sendTextMessage_def ensureConnected_def Let_def
        split: prod.splits sum.splits if_splits)

lemma frame_events: "frame P w w' \<Longrightarrow> events w' = events w @ new_events w w'"
  by (auto simp add: frame_def new_events_def)

lemma withRetry_loop_rel:
  assumes step: "\<And>w. R w (snd (fn w))"
    and refl: "\<And>w. R w w"
    and trans: "\<And>a b c. R a b \<Longrightarrow> R b c \<Longrightarrow> R a c"
  shows "R w (snd (withRetry_loop fn retries attempt w))"
  using step
proof (induction fn retries attempt w rule: withRetry_loop.induct)
  case (1 fn retries attempt w)
  have st: "R w (snd (fn w))" by (rule "1.prems")
  show ?case
  proof (cases "fn w")
    case (Pair r w1)
    with st have f1: "R w w1" by simp
    show ?thesis
    proof (cases r)
      case (Inr v)
      with Pair f1 show ?thesis
        by (simp add: withRetry_loop.simps[of fn retries attempt w] refl)
    next
      case (Inl e)
      show ?thesis
      proof (cases "attempt < retries")
        case False
        with Inl Pair f1 show ?thesis
          by (auto simp add: withRetry_loop.simps[of fn retries attempt w] refl)
      next
        case True
        then have le: "attempt \<le> retries" and ne: "attempt \<noteq> retries" by auto
        have "R w1 (snd (withRetry_loop fn retries (Suc attempt) w1))"
          using "1.IH"[OF le Pair[symmetric] Inl ne] "1.prems" by simp
        with f1 have "R w (snd (withRetry_loop fn retries (Suc attempt) w1))"
          by (rule trans)
        with Inl Pair le ne show ?thesis
          by (simp add: withRetry_loop.simps[of fn retries attempt w])
      qed
    qed
  qed
qed

lemma registry_downloadMedia:
  "media_registry (snd (downloadMedia E key url t dir w)) = media_registry w"
  by (simp add: downloadMedia_def Let_def split: sum.splits)

lemma registry_withRetry_downloadMedia:
  "media_registry (snd (withRetry (downloadMedia E key url t dir) n w)) = media_registry w"
  unfolding withRetry_def
  by (rule withRetry_loop_rel[where R = "\<lambda>a b. media_registry b = media_registry a"])
     (simp_all add: registry_downloadMedia)

lemma frame_withRetry_downloadMedia:
  "frame is_download w (snd (withRetry (downloadMedia E key url t dir) n w))"
  by (rule frame_withRetry, rule frame_downloadMedia) (simp add: is_download_def)

lemma registry_remove_all: "media_registry (snd (remove_all E ps w)) = media_registry w"
proof (induction ps arbitrary: w)
  case Nil
  show ?case by simp
next
  case (Cons p ps)
  obtain r w1 where r1: "removeFileSafe E p w = (r, w1)" by (cases "removeFileSafe E p w")
  then have "media_registry w1 = media_registry w" by (auto simp add: removeFileSafe_def)
  moreover have "media_registry (snd (remove_all E ps w1)) = media_registry w1" by (rule Cons.IH)
  ultimately show ?case using r1 by (auto split: prod.splits)
qed

lemma registry_cleanup: "media_registry (snd (cleanup E fs res w)) = media_registry w"
  using registry_remove_all[of E "map path fs" w]
  by (cases "remove_all E (map path fs) w") (auto simp add: cleanup_def split: option.splits)

lemma mark_loop_registry:
  "(\<forall>r\<in>set (media_registry w). rec_mediaKey r \<in> K \<longrightarrow> sent_row tweet user ids r) \<Longrightarrow>
     (\<forall>r\<in>set (media_registry (snd (mark_loop E tweet user ids fs res w))).
         rec_mediaKey r \<in> K \<union> mediaKey ` set fs \<longrightarrow> sent_row tweet user ids r)
     \<and> mediaKey ` set fs
         \<subseteq> rec_mediaKey ` set (media_registry (snd (mark_loop E tweet user ids fs res w)))"
proof (induction fs arbitrary: K res w)
  case Nil
  then show ?case by simp
next
  case (Cons f fs)
  let ?w1 = "snd (Date_now E w)"
  let ?row = "\<lparr>rec_mediaKey = mediaKey f, rec_tweetId = tweet_id tweet,
                  rec_username = user, rec_mediaUrl = mediaUrl f,
                  rec_mediaType = mediaType f, rec_uploadedAt = fst (Date_now E w),
                  rec_telegramMessageIds = ids, rec_status = Uploaded\<rparr>"
  let ?w2 = "markMediaUploaded ?row ?w1"
  let ?res = "res\<lparr>uploaded := uploaded res + 1\<rparr>"
  let ?w' = "snd (mark_loop E tweet user ids fs ?res ?w2)"
  have unfold: "mark_loop E tweet user ids (f # fs) res w = mark_loop E tweet user ids fs ?res ?w2"
    by (simp add: Let_def split: prod.splits)
  have reg2: "media_registry ?w2 =
      filter (\<lambda>x. rec_mediaKey x \<noteq> mediaKey f) (media_registry w) @ [?row]"
    by (simp add: markMediaUploaded_def Date_now_def)
  have hyp2: "\<forall>r\<in>set (media_registry ?w2).
                rec_mediaKey r \<in> insert (mediaKey f) K \<longrightarrow> sent_row tweet user ids r"
    using Cons.prems by (auto simp add: reg2 sent_row_def)
  from Cons.IH[OF hyp2, of ?res]
  have ih: "\<forall>r\<in>set (media_registry ?w').
              rec_mediaKey r \<in> insert (mediaKey f) K \<union> mediaKey ` set fs \<longrightarrow> sent_row tweet user ids r"
    and sub: "mediaKey ` set fs \<subseteq> rec_mediaKey ` set (media_registry ?w')"
    by auto
  have "frame (\<lambda>e. True) ?w2 ?w'" by (rule frame_mark_loop)
  moreover have "isMediaUploaded (mediaKey f) ?w2"
    by (simp add: isMediaUploaded_def reg2)
  ultimately have "isMediaUploaded (mediaKey f) ?w'" by (rule frame_keys_mono)
  then have "mediaKey f \<in> rec_mediaKey ` set (media_registry ?w')"
    by (simp add: isMediaUploaded_def)
  with ih sub unfold show ?case by auto
qed

lemma chunkArray_concat: "n > 0 \<Longrightarrow> concat (chunkArray xs n) = xs"
proof (induction xs n rule: chunkArray.induct)
  case (1 items n)
  show ?case
  proof (cases "items = []")
    case True
    then show ?thesis by (simp add: chunkArray.simps[of "[]" n])
  next
    case False
    with "1.prems" have "concat (chunkArray (drop n items) n) = drop n items"
      by (intro "1.IH") auto
    with False "1.prems" show ?thesis by (simp add: chunkArray.simps[of items n])
  qed
qed

lemma send_chunks_ids:
  "send_chunks E input chunks i acc w = (Inr ids, w') \<Longrightarrow>
    \<exists>results. length results = length chunks
      \<and> ids = acc @ concat (map result_messageIds results)
      \<and> (\<forall>k<length chunks. \<exists>cap. toCaption E input (i + k) = Inr cap
             \<and> sendFile_at E (tick w + k) (map path (chunks ! k)) cap = Inr (results ! k))"
proof (induction chunks arbitrary: i acc w)
  case Nil
  then show ?case by simp
next
  case (Cons chunk rest)
  from Cons.prems obtain cap where cap: "toCaption E input i = Inr cap"
    by (cases "toCaption E input i") (auto simp add: Let_def)
  let ?w1 = "w\<lparr>events := events w @ [EvSendFile (map path chunk) cap], tick := Suc (tick w)\<rparr>"
  from Cons.prems cap obtain result where
    res: "sendFile_at E (tick w) (map path chunk) cap = Inr result"
    by (cases "sendFile_at E (tick w) (map path chunk) cap") (auto simp add: Let_def)
  from Cons.prems cap res
  have rec: "send_chunks E input rest (Suc i) (acc @ result_messageIds result) ?w1 = (Inr ids, w')"
    by (simp add: Let_def)
  from Cons.IH[OF rec] obtain results where
    r: "length results = length rest"
       "ids = (acc @ result_messageIds result) @ concat (map result_messageIds results)"
       "\<forall>k<length rest. \<exists>cap. toCaption E input (Suc i + k) = Inr cap
             \<and> sendFile_at E (tick ?w1 + k) (map path (rest ! k)) cap = Inr (results ! k)"
    by blast
  have "\<forall>k<length (chunk # rest). \<exists>c. toCaption E input (i + k) = Inr c
             \<and> sendFile_at E (tick w + k) (map path ((chunk # rest) ! k)) c
                 = Inr ((result # results) ! k)"
  proof (intro allI impI)
    fix k assume k: "k < length (chunk # rest)"
    show "\<exists>c. toCaption E input (i + k) = Inr c
             \<and> sendFile_at E (tick w + k) (map path ((chunk # rest) ! k)) c
                 = Inr ((result # results) ! k)"
    proof (cases k)
      case 0
      with cap res show ?thesis by simp
    next
      case (Suc j)
      with k r(3) show ?thesis by simp
    qed
  qed
  with r(1,2) show ?case
    by (intro exI[of _ "result # results"]) simp
qed

lemma loadConfig_no_cooldown:
  "loadConfig Number_int JSON_parse environment = Inr C \<Longrightarrow>
     twitterRateLimitCooldownSeconds C = None
     \<and> fst (computeCooldownUntil E C w) = Inl (RangeError ''Invalid time value'')"
  by (auto simp add: loadConfig_def computeCooldownUntil_def toISOString_def Date_now_def
        split: sum.splits)

text \<open>An array without the two session cookies is refused, the empty array among them.\<close>

lemma parseCookies_empty_array:
  "JSON_parse raw = Inr (JArray []) \<Longrightarrow>
     parseCookies JSON_parse raw
       = Inl (Error ''TWITTER_COOKIES_JSON must include auth_token and ct0 cookies'')"
  by (simp add: parseCookies_def List.map_filter_def)

lemma parseCookies_demo:
  "parseCookies demo_JSON_parse demo_cookies_json
     = Inr [''auth_token=a; Domain=.twitter.com; Path=/;'',
            ''ct0=b; Domain=.twitter.com; Path=/;'']"
  by (simp add: parseCookies_def demo_JSON_parse_def demo_cookies_value_def normalizeCookie_def
        normalizeCookieDomain_def trim_def is_space_def to_lower_def extractCookieName_def
        List.map_filter_def)

lemma loadConfig_demo:
  "loadConfig demo_Number_int demo_JSON_parse demo_environment = Inr demo_loaded_config"
proof -
  have len: "2 \<le> length demo_cookies_json"
    by (simp add: demo_cookies_json_def quoted_def)
  then show ?thesis
    by (simp add: loadConfig_def required_string_def positive_int_def positive_int_default_def
        string_default_def parse_users_def trim_def strip_at_def is_space_def
        demo_Number_int_def demo_environment_def demo_loaded_config_def
        decimal_value_def parseCookies_demo)
qed

lemma second_copy_accepts_message:
  "isTwitterRateLimitError_by_message demo_429_error"
  by (simp add: isTwitterRateLimitError_by_message_def rate_limit_pattern_def demo_429_error_def)

lemma mergeUniqueTweets_Nil: "mergeUniqueTweets E [] = []"
  by (simp add: mergeUniqueTweets_def)

lemma select_tweets_Nil: "select_tweets E C [] [] = []"
  by (simp add: select_tweets_def candidates_def mergeUniqueTweets_Nil)

lemmas demo_defs = demo_env_def demo_config_def demo_world_def demo_tweet_def demo_media_def
  decimal_value_def

lemmas engine_defs = Date_now_def toISOString_def
  processAccount_def getAccountState_def nowIso_def createAccountSummary_def account_try_def
  account_catch_def collectIncrementalTweets_def collectBackfillTweets_def
  listTweetsWithMedia_def truthy_def select_tweets_def candidates_def mergeUniqueTweets_def
  processTweet_def processMedia_def makeMediaKey_def isMediaUploaded_def markMediaUploaded_def
  withRetry_def withRetry_loop.simps downloadMedia_def path_join_def extensionByType_def
  sendTweetMediaGroup_def ensureConnected_def chunkArray.simps toCaption_def
  result_messageIds_def cleanup_def removeFileSafe_def upsertAccountState_def
  sendTextMessage_def computeCooldownUntil_def Let_def List.map_filter_def

lemmas report_defs = formatRunReport_def formatFailureReport_def account_line_def
  String_of_int_def String_of_nat.simps String_of_bool_def digit_char_def

lemma frame_reg: "frame P w w' \<Longrightarrow> reg_frame P w w'"
  by (simp add: frame_def reg_frame_def)

lemma reg_frame_refl: "reg_frame P w w"
  by (simp add: reg_frame_def)

lemma reg_frame_trans: "reg_frame P a b \<Longrightarrow> reg_frame P b c \<Longrightarrow> reg_frame P a c"
  unfolding reg_frame_def by (auto simp: list_all_iff)

lemma reg_frame_keys_mono:
  "reg_frame P w w' \<Longrightarrow> isMediaUploaded k w \<Longrightarrow> isMediaUploaded k w'"
  by (auto simp add: reg_frame_def isMediaUploaded_keys)

lemma reg_frame_new_events: "reg_frame P w w' \<Longrightarrow> list_all P (new_events w w')"
  by (auto simp add: reg_frame_def new_events_def)

lemma reg_frame_upsertAccountState: "reg_frame P w (upsertAccountState E st w)"
  by (simp add: reg_frame_def upsertAccountState_def keys_of_def nowIso_def Date_now_def
        split: option.splits)

lemma reg_frame_acquireJobLock: "reg_frame P w (snd (acquireJobLock E job holder ttl w))"
  by (simp add: reg_frame_def acquireJobLock_def keys_of_def Date_now_def
        split: sum.splits option.splits)

lemma reg_frame_releaseJobLock: "reg_frame P w (releaseJobLock job holder w)"
  by (simp add: reg_frame_def releaseJobLock_def keys_of_def split: option.splits)

lemma reg_frame_computeCooldownUntil: "reg_frame P w (snd (computeCooldownUntil E C w))"
  by (simp add: reg_frame_def computeCooldownUntil_def keys_of_def Date_now_def)

lemma frame_processTweet_no_download:
  assumes reg: "isMediaUploaded key w"
  shows "frame (no_download key) w (snd (processTweet E C tweet user w))"
proof (rule frame_processTweet[where P = "no_download key"])
  show "\<forall>m\<in>set (media tweet).
          \<not> isMediaUploaded (makeMediaKey E (tweet_id tweet) (media_url m)) w
          \<longrightarrow> no_download key (EvDownload (makeMediaKey E (tweet_id tweet) (media_url m)) (media_url m))"
    using reg by (auto simp add: no_download_def)
qed (simp_all add: no_download_def)

lemma frame_process_selected_no_download:
  "isMediaUploaded key w \<Longrightarrow>
     frame (no_download key) w (snd (process_selected E C user sel totals w))"
proof (induction sel arbitrary: totals w)
  case Nil
  show ?case by (simp add: frame_refl)
next
  case (Cons t rest)
  obtain pr w1 where pt: "processTweet E C t user w = (pr, w1)" by (cases "processTweet E C t user w")
  have f1: "frame (no_download key) w w1"
    using frame_processTweet_no_download[OF Cons.prems, of E C t user] pt by simp
  show ?case
  proof (cases pr)
    case (Inl e)
    with pt f1 show ?thesis by simp
  next
    case (Inr p)
    have "isMediaUploaded key w1" using f1 Cons.prems by (rule frame_keys_mono)
    then have "frame (no_download key) w1 (snd (process_selected E C user rest
            (totals\<lparr>uploaded := uploaded totals + uploaded p,
                    skipped := skipped totals + skipped p,
                    failed := failed totals + failed p\<rparr>) w1))"
      by (rule Cons.IH)
    with f1 pt Inr show ?thesis by (auto intro: frame_trans)
  qed
qed

lemma reg_frame_account_try:
  assumes reg: "isMediaUploaded key w"
  shows "reg_frame (no_download key) w (snd (account_try E C user state summary w))"
proof -
  let ?P = "no_download key"
  obtain ir w1 where ci: "collectIncrementalTweets E C user (latestSeenTweetId state) w = (ir, w1)"
    by (cases "collectIncrementalTweets E C user (latestSeenTweetId state) w")
  have f1: "frame ?P w w1"
    using frame_collectIncrementalTweets[of ?P w E C user "latestSeenTweetId state"] ci
    by (simp add: no_download_def)
  show ?thesis
  proof (cases ir)
    case (Inl e)
    with ci have "snd (account_try E C user state summary w) = w1"
      by (simp add: account_try_def)
    with f1 show ?thesis by (simp add: frame_reg)
  next
    case (Inr incremental)
    let ?bfc = "(if backfillDone state
                 then (Inr \<lparr>bf_tweets = [], bf_nextCursor = None, bf_backfillDone = True\<rparr>, w1)
                 else collectBackfillTweets E C user (backfillCursor state) w1)"
    obtain br w2 where cb: "?bfc = (br, w2)" by (cases ?bfc)
    have "frame ?P w1 w2"
      using frame_collectBackfillTweets[of ?P w1 E C user "backfillCursor state"] cb
      by (auto simp add: no_download_def frame_refl split: if_splits)
    with f1 have f2: "frame ?P w w2" by (rule frame_trans)
    show ?thesis
    proof (cases br)
      case (Inl e)
      with ci Inr cb have "snd (account_try E C user state summary w) = w2"
        by (auto simp add: account_try_def Let_def split: if_splits)
      with f2 show ?thesis by (simp add: frame_reg)
    next
      case bfr: (Inr backfill)
      let ?sel = "select_tweets E C (inc_tweets incremental) (bf_tweets backfill)"
      obtain pr w3 where ps: "process_selected E C user ?sel
                          \<lparr>uploaded = 0, skipped = 0, failed = 0\<rparr> w2 = (pr, w3)"
        by (cases "process_selected E C user ?sel \<lparr>uploaded = 0, skipped = 0, failed = 0\<rparr> w2")
      have reg2: "isMediaUploaded key w2" using f2 reg by (rule frame_keys_mono)
      have "frame ?P w2 w3"
        using frame_process_selected_no_download[OF reg2, of E C user ?sel
                "\<lparr>uploaded = 0, skipped = 0, failed = 0\<rparr>"] ps
        by simp
      with f2 have "frame ?P w w3" by (rule frame_trans)
      then have f3: "reg_frame ?P w w3" by (rule frame_reg)
      have "snd (account_try E C user state summary w) = w3
            \<or> (\<exists>st. snd (account_try E C user state summary w) = upsertAccountState E st w3)"
        using ci Inr cb bfr ps
        by (cases "backfillDone state"; cases pr) (auto simp add: account_try_def Let_def)
      then show ?thesis
      proof
        assume "snd (account_try E C user state summary w) = w3"
        with f3 show ?thesis by simp
      next
        assume "\<exists>st. snd (account_try E C user state summary w) = upsertAccountState E st w3"
        then obtain st where eq: "snd (account_try E C user state summary w) = upsertAccountState E st w3"
          by blast
        have "reg_frame ?P w (upsertAccountState E st w3)"
          using f3 reg_frame_upsertAccountState by (rule reg_frame_trans)
        with eq show ?thesis by simp
      qed
    qed
  qed
qed

lemma reg_frame_account_catch:
  "reg_frame (no_download key) w (snd (account_catch E C user state summary e w))"
proof (cases "isTwitterRateLimitError e")
  case True
  obtain r w1 where cc: "computeCooldownUntil E C w = (r, w1)"
    by (cases "computeCooldownUntil E C w")
  have f1: "reg_frame (no_download key) w w1"
    using reg_frame_computeCooldownUntil[of "no_download key" w E C] cc by simp
  show ?thesis
  proof (cases r)
    case (Inl e1)
    with True cc f1 show ?thesis by (simp add: account_catch_def)
  next
    case (Inr until)
    with True cc have "\<exists>st. snd (account_catch E C user state summary e w)
                          = upsertAccountState E st w1"
      by (auto simp add: account_catch_def)
    then obtain st where eq: "snd (account_catch E C user state summary e w)
                          = upsertAccountState E st w1" by blast
    have "reg_frame (no_download key) w (upsertAccountState E st w1)"
      using f1 reg_frame_upsertAccountState by (rule reg_frame_trans)
    with eq show ?thesis by simp
  qed
next
  case False
  let ?msg = "formatFailureReport e (''account:'' @ user)"
  have "frame (no_download key) w (snd (sendTextMessage E ?msg w))"
    by (rule frame_sendTextMessage) (simp_all add: no_download_def)
  moreover have "snd (account_catch E C user state summary e w) = snd (sendTextMessage E ?msg w)"
    using False by (auto simp add: account_catch_def split: prod.splits sum.splits)
  ultimately show ?thesis by (simp add: frame_reg)
qed

lemma reg_frame_processAccount:
  assumes reg: "isMediaUploaded key w"
  shows "reg_frame (no_download key) w (snd (processAccount E C user w))"
proof -
  let ?P = "no_download key"
  obtain state w1 where gs: "getAccountState E user w = (state, w1)"
    by (cases "getAccountState E user w")
  obtain now w2 where dn: "Date_now E w1 = (now, w2)" by (cases "Date_now E w1")
  have "frame ?P w w1" using getAccountState_frame[of ?P w E user] gs by simp
  moreover have "frame ?P w1 w2" using frame_Date_now[of ?P w1 E] dn by simp
  ultimately have f2: "frame ?P w w2" by (rule frame_trans)
  then have r2: "reg_frame ?P w w2" by (rule frame_reg)
  have reg2: "isMediaUploaded key w2" using f2 reg by (rule frame_keys_mono)
  show ?thesis
  proof (cases "case rateLimitedUntil state of None \<Rightarrow> False | Some ts \<Rightarrow> ts > now")
    case True
    with gs dn have "snd (processAccount E C user w) = w2" by (simp add: processAccount_def)
    with r2 show ?thesis by simp
  next
    case False
    obtain r s w3 where tr:
      "account_try E C user state (createAccountSummary user) w2 = ((r, s), w3)"
      by (cases "account_try E C user state (createAccountSummary user) w2") auto
    have "reg_frame ?P w2 w3"
      using reg_frame_account_try[OF reg2, of E C user state "createAccountSummary user"] tr
      by simp
    with r2 have r3: "reg_frame ?P w w3" by (rule reg_frame_trans)
    show ?thesis
    proof (cases r)
      case None
      with gs dn False tr have "snd (processAccount E C user w) = w3"
        by (simp add: processAccount_def)
      with r3 show ?thesis by simp
    next
      case (Some e)
      with gs dn False tr have eq: "snd (processAccount E C user w)
            = snd (account_catch E C user state s e w3)"
        by (simp add: processAccount_def)
      have "reg_frame ?P w (snd (account_catch E C user state s e w3))"
        using r3 reg_frame_account_catch by (rule reg_frame_trans)
      with eq show ?thesis by simp
    qed
  qed
qed

lemma reg_frame_account_loop:
  "isMediaUploaded key w \<Longrightarrow>
     reg_frame (no_download key) w (snd (account_loop E C users acc w))"
proof (induction users arbitrary: acc w)
  case Nil
  show ?case by (simp add: reg_frame_refl)
next
  case (Cons user rest)
  obtain r w1 where pa: "processAccount E C user w = (r, w1)"
    by (cases "processAccount E C user w")
  have f1: "reg_frame (no_download key) w w1"
    using reg_frame_processAccount[OF Cons.prems, of E C user] pa by simp
  show ?case
  proof (cases r)
    case (Inl e)
    with pa f1 show ?thesis by simp
  next
    case (Inr summary)
    have "isMediaUploaded key w1" using f1 Cons.prems by (rule reg_frame_keys_mono)
    then have "reg_frame (no_download key) w1 (snd (account_loop E C rest (acc @ [summary]) w1))"
      by (rule Cons.IH)
    with f1 have "reg_frame (no_download key) w (snd (account_loop E C rest (acc @ [summary]) w1))"
      by (rule reg_frame_trans)
    with pa Inr show ?thesis by simp
  qed
qed

lemma reg_frame_sendTextMessage:
  "reg_frame (no_download key) w (snd (sendTextMessage E msg w))"
  by (rule frame_reg, rule frame_sendTextMessage) (simp_all add: no_download_def)

lemma reg_frame_Date_now: "reg_frame P w (snd (Date_now E w))"
  by (rule frame_reg) (rule frame_Date_now)

lemma reg_frame_run:
  assumes reg: "isMediaUploaded key w"
  shows "reg_frame (no_download key) w (snd (run E C w))"
proof -
  let ?P = "no_download key"
  obtain t0 w1 where d1: "Date_now E w = (t0, w1)" by (cases "Date_now E w")
  obtain started w2 where d2: "Date_now E w1 = (started, w2)" by (cases "Date_now E w1")
  let ?holder = "''sync-'' @ String_of_nat (pid E) @ ''-'' @ String_of_int t0"
  obtain lr w3 where aq: "acquireJobLock E ''daily-sync'' ?holder (jobLockTtlSeconds C) w2 = (lr, w3)"
    by (cases "acquireJobLock E ''daily-sync'' ?holder (jobLockTtlSeconds C) w2")
  have "reg_frame ?P w w1" using reg_frame_Date_now[of ?P w E] d1 by simp
  moreover have "reg_frame ?P w1 w2" using reg_frame_Date_now[of ?P w1 E] d2 by simp
  ultimately have r2: "reg_frame ?P w w2" by (rule reg_frame_trans)
  have "reg_frame ?P w2 w3"
    using reg_frame_acquireJobLock[of ?P w2 E "''daily-sync''" ?holder "jobLockTtlSeconds C"] aq
    by simp
  with r2 have r3: "reg_frame ?P w w3" by (rule reg_frame_trans)
  have reg3: "isMediaUploaded key w3" using r3 reg by (rule reg_frame_keys_mono)
  show ?thesis
  proof (cases lr)
    case (Inl e)
    with d1 d2 aq have "snd (run E C w) = w3" by (simp add: run_def Let_def split_beta del: String_of_nat.simps)
    with r3 show ?thesis by simp
  next
    case (Inr lockAcquired)
    show ?thesis
    proof (cases lockAcquired)
      case False
      with Inr d1 d2 aq have eq: "snd (run E C w) = snd (Date_now E w3)"
        by (simp add: run_def Let_def split_beta del: String_of_nat.simps)
      have "reg_frame ?P w (snd (Date_now E w3))"
        using r3 reg_frame_Date_now by (rule reg_frame_trans)
      with eq show ?thesis by simp
    next
      case True
      obtain ar wa where al: "account_loop E C (twitterUsers C) [] w3 = (ar, wa)"
        by (cases "account_loop E C (twitterUsers C) [] w3")
      have "reg_frame ?P w3 wa"
        using reg_frame_account_loop[OF reg3, of E C "twitterUsers C" "[]"] al by simp
      with r3 have ra: "reg_frame ?P w wa" by (rule reg_frame_trans)
      have "\<exists>w5. snd (run E C w) = releaseJobLock ''daily-sync'' ?holder w5
                  \<and> reg_frame ?P wa w5"
      proof (cases ar)
        case (Inl e)
        let ?msg = "formatFailureReport e ''pipeline.run''"
        have "snd (run E C w) = releaseJobLock ''daily-sync'' ?holder (snd (sendTextMessage E ?msg wa))"
          using Inr True d1 d2 aq al Inl
          by (simp add: run_def Let_def split_beta del: String_of_nat.simps split: sum.split)
        then show ?thesis using reg_frame_sendTextMessage[of key wa E ?msg]
          by (intro exI[of _ "snd (sendTextMessage E ?msg wa)"] conjI)
      next
        case acc: (Inr accountSummaries)
        obtain finished wb where d3: "Date_now E wa = (finished, wb)" by (cases "Date_now E wa")
        have rb: "reg_frame ?P wa wb" using reg_frame_Date_now[of ?P wa E] d3 by simp
        let ?result = "\<lparr>startedAt = started, finishedAt = finished,
                         skippedByLock = False, accounts = accountSummaries\<rparr>"
        obtain sr wc where st: "sendTextMessage E (formatRunReport E ?result) wb = (sr, wc)"
          by (cases "sendTextMessage E (formatRunReport E ?result) wb")
        have "reg_frame ?P wb wc"
          using reg_frame_sendTextMessage[of key wb E "formatRunReport E ?result"] st by simp
        with rb have rc: "reg_frame ?P wa wc" by (rule reg_frame_trans)
        show ?thesis
        proof (cases sr)
          case (Inl e)
          let ?msg = "formatFailureReport e ''pipeline.run''"
          have "snd (run E C w) = releaseJobLock ''daily-sync'' ?holder (snd (sendTextMessage E ?msg wc))"
            using Inr True d1 d2 aq al acc d3 st Inl
            by (simp add: run_def Let_def split_beta del: String_of_nat.simps split: sum.split)
          moreover have "reg_frame ?P wa (snd (sendTextMessage E ?msg wc))"
            using rc reg_frame_sendTextMessage[of key wc E ?msg] by (rule reg_frame_trans)
          ultimately show ?thesis
            by (intro exI[of _ "snd (sendTextMessage E ?msg wc)"] conjI)
        next
          case ok: (Inr u)
          have "snd (run E C w) = releaseJobLock ''daily-sync'' ?holder wc"
            using Inr True d1 d2 aq al acc d3 st ok
            by (simp add: run_def Let_def split_beta del: String_of_nat.simps)
          with rc show ?thesis by (intro exI[of _ wc] conjI)
        qed
      qed
      then obtain w5 where w5: "snd (run E C w) = releaseJobLock ''daily-sync'' ?holder w5"
        "reg_frame ?P wa w5" by blast
      from ra w5(2) have "reg_frame ?P w w5" by (rule reg_frame_trans)
      then have "reg_frame ?P w (releaseJobLock ''daily-sync'' ?holder w5)"
        using reg_frame_releaseJobLock by (rule reg_frame_trans)
      then show ?thesis unfolding w5(1) .
    qed
  qed
qed

text \<open>
  Errors of the download and of the send stay inside \<^verbatim>\<open>processTweet\<close>: its \<^verbatim>\<open>catch\<close> block
  counts them, and only the removal of the files in the \<^verbatim>\<open>finally\<close> block can make it throw.
\<close>

lemma remove_all_ok:
  "(\<And>n p. rm_at E n p = Inr ()) \<Longrightarrow> fst (remove_all E ps w) = None"
  by (induction ps arbitrary: w) (simp_all add: removeFileSafe_def split: prod.splits)

lemma cleanup_ok:
  "(\<And>n p. rm_at E n p = Inr ()) \<Longrightarrow> fst (cleanup E fs res w) = Inr res"
proof -
  assume a: "\<And>n p. rm_at E n p = Inr ()"
  obtain r w1 where ra: "remove_all E (map path fs) w = (r, w1)"
    by (cases "remove_all E (map path fs) w")
  with remove_all_ok[of E "map path fs" w] a have "r = None" by simp
  with ra show ?thesis by (simp add: cleanup_def)
qed

lemma processTweet_absorbs_errors:
  assumes a: "\<And>n p. rm_at E n p = Inr ()"
  shows "\<exists>r. fst (processTweet E C tweet user w) = Inr r"
proof -
  have "\<exists>fs res w1. processTweet E C tweet user w = cleanup E fs res w1"
    by (auto simp add: processTweet_def split: prod.splits option.splits sum.splits)
  then obtain fs res w1 where "processTweet E C tweet user w = cleanup E fs res w1" by blast
  with cleanup_ok[of E fs res w1] a show ?thesis by simp
qed

text \<open>What the \<^verbatim>\<open>try\<close> block makes of the summary: either nothing was uploaded, or both
  fetches returned and the counters of the summary are those of the posts selected from
  what they returned.\<close>

lemma account_try_selection:
  assumes tr: "account_try E C user state summary w = ((r, s), w')"
    and z: "sum_uploaded summary = 0"
  shows "sum_uploaded s = 0
     \<or> (\<exists>incremental w1 backfill w2.
           collectIncrementalTweets E C user (latestSeenTweetId state) w = (Inr incremental, w1)
         \<and> (if backfillDone state
              then (Inr \<lparr>bf_tweets = [], bf_nextCursor = None, bf_backfillDone = True\<rparr>, w1)
              else collectBackfillTweets E C user (backfillCursor state) w1) = (Inr backfill, w2)
         \<and> 0 \<le> sum_uploaded s
         \<and> sum_uploaded s
              \<le> total_media (select_tweets E C (inc_tweets incremental) (bf_tweets backfill))
         \<and> incrementalTweetsSelected s + backfillTweetsSelected s
              = int (length (select_tweets E C (inc_tweets incremental) (bf_tweets backfill))))"
proof -
  obtain ir w1 where ci: "collectIncrementalTweets E C user (latestSeenTweetId state) w = (ir, w1)"
    by (cases "collectIncrementalTweets E C user (latestSeenTweetId state) w")
  show ?thesis
  proof (cases ir)
    case (Inl e)
    with ci tr z have "sum_uploaded s = 0" by (auto simp add: account_try_def)
    then show ?thesis by simp
  next
    case (Inr incremental)
    let ?bfc = "(if backfillDone state
                 then (Inr \<lparr>bf_tweets = [], bf_nextCursor = None, bf_backfillDone = True\<rparr>, w1)
                 else collectBackfillTweets E C user (backfillCursor state) w1)"
    obtain br w2 where cb: "?bfc = (br, w2)" by (cases ?bfc)
    show ?thesis
    proof (cases br)
      case (Inl e)
      with ci Inr cb tr z have "sum_uploaded s = 0"
        by (auto simp add: account_try_def Let_def split: if_splits)
      then show ?thesis by simp
    next
      case bfr: (Inr backfill)
      let ?sel = "select_tweets E C (inc_tweets incremental) (bf_tweets backfill)"
      obtain pr w3 where ps: "process_selected E C user ?sel
                          \<lparr>uploaded = 0, skipped = 0, failed = 0\<rparr> w2 = (pr, w3)"
        by (cases "process_selected E C user ?sel \<lparr>uploaded = 0, skipped = 0, failed = 0\<rparr> w2")
      show ?thesis
      proof (cases pr)
        case (Inl e)
        with ci Inr cb bfr ps tr z have "sum_uploaded s = 0"
          by (cases "backfillDone state") (auto simp add: account_try_def Let_def)
        then show ?thesis by simp
      next
        case tot: (Inr totals)
        from process_selected_uploaded[OF ps[unfolded tot]]
        have b: "0 \<le> uploaded totals" "uploaded totals \<le> total_media ?sel" by auto
        from ci Inr cb bfr ps tot tr
        have "sum_uploaded s = uploaded totals
              \<and> incrementalTweetsSelected s + backfillTweetsSelected s = int (length ?sel)"
          by (cases "backfillDone state") (auto simp add: account_try_def Let_def)
        then have u: "sum_uploaded s = uploaded totals"
          and n: "incrementalTweetsSelected s + backfillTweetsSelected s = int (length ?sel)"
          by simp_all
        have ci': "collectIncrementalTweets E C user (latestSeenTweetId state) w
                     = (Inr incremental, w1)"
          using ci Inr by simp
        have cb': "?bfc = (Inr backfill, w2)" using cb bfr by simp
        have "0 \<le> sum_uploaded s" "sum_uploaded s \<le> total_media ?sel"
          using b u by simp_all
        with ci' cb' n show ?thesis
          by (intro disjI2 exI[of _ incremental] exI[of _ w1] exI[of _ backfill] exI[of _ w2] conjI)
      qed
    qed
  qed
qed

lemma processAccount_selection:
  assumes pa: "processAccount E C user w = (Inr s, w')"
  shows "sum_uploaded s = 0
     \<or> (\<exists>state w1 now w2 incremental w3 backfill w4.
           getAccountState E user w = (state, w1) \<and> Date_now E w1 = (now, w2)
         \<and> collectIncrementalTweets E C user (latestSeenTweetId state) w2 = (Inr incremental, w3)
         \<and> (if backfillDone state
              then (Inr \<lparr>bf_tweets = [], bf_nextCursor = None, bf_backfillDone = True\<rparr>, w3)
              else collectBackfillTweets E C user (backfillCursor state) w3) = (Inr backfill, w4)
         \<and> 0 \<le> sum_uploaded s
         \<and> sum_uploaded s
              \<le> total_media (select_tweets E C (inc_tweets incremental) (bf_tweets backfill))
         \<and> incrementalTweetsSelected s + backfillTweetsSelected s
              = int (length (select_tweets E C (inc_tweets incremental) (bf_tweets backfill))))"
proof -
  obtain state w1 where gs: "getAccountState E user w = (state, w1)"
    by (cases "getAccountState E user w")
  obtain now w2 where dn: "Date_now E w1 = (now, w2)" by (cases "Date_now E w1")
  show ?thesis
  proof (cases "case rateLimitedUntil state of None \<Rightarrow> False | Some ts \<Rightarrow> ts > now")
    case True
    with gs dn pa have "sum_uploaded s = 0"
      by (auto simp add: processAccount_def createAccountSummary_def)
    then show ?thesis by simp
  next
    case False
    obtain r s0 w3 where tr:
      "account_try E C user state (createAccountSummary user) w2 = ((r, s0), w3)"
      by (cases "account_try E C user state (createAccountSummary user) w2") auto
    have same: "sum_uploaded s = sum_uploaded s0
              \<and> incrementalTweetsSelected s = incrementalTweetsSelected s0
              \<and> backfillTweetsSelected s = backfillTweetsSelected s0"
    proof (cases r)
      case None
      with gs dn False tr pa show ?thesis by (auto simp add: processAccount_def)
    next
      case (Some e)
      with gs dn False tr pa have "account_catch E C user state s0 e w3 = (Inr s, w')"
        by (auto simp add: processAccount_def)
      then show ?thesis
        by (auto simp add: account_catch_def split: if_splits prod.splits sum.splits)
    qed
    from account_try_selection[OF tr]
    have "sum_uploaded s0 = 0
     \<or> (\<exists>incremental w1' backfill w2'.
           collectIncrementalTweets E C user (latestSeenTweetId state) w2 = (Inr incremental, w1')
         \<and> (if backfillDone state
              then (Inr \<lparr>bf_tweets = [], bf_nextCursor = None, bf_backfillDone = True\<rparr>, w1')
              else collectBackfillTweets E C user (backfillCursor state) w1') = (Inr backfill, w2')
         \<and> 0 \<le> sum_uploaded s0
         \<and> sum_uploaded s0
              \<le> total_media (select_tweets E C (inc_tweets incremental) (bf_tweets backfill))
         \<and> incrementalTweetsSelected s0 + backfillTweetsSelected s0
              = int (length (select_tweets E C (inc_tweets incremental) (bf_tweets backfill))))"
      by (simp add: createAccountSummary_def)
    then show ?thesis
    proof
      assume "sum_uploaded s0 = 0"
      with same show ?thesis by simp
    next
      assume "\<exists>incremental w1' backfill w2'.
           collectIncrementalTweets E C user (latestSeenTweetId state) w2 = (Inr incremental, w1')
         \<and> (if backfillDone state
              then (Inr \<lparr>bf_tweets = [], bf_nextCursor = None, bf_backfillDone = True\<rparr>, w1')
              else collectBackfillTweets E C user (backfillCursor state) w1') = (Inr backfill, w2')
         \<and> 0 \<le> sum_uploaded s0
         \<and> sum_uploaded s0
              \<le> total_media (select_tweets E C (inc_tweets incremental) (bf_tweets backfill))
         \<and> incrementalTweetsSelected s0 + backfillTweetsSelected s0
              = int (length (select_tweets E C (inc_tweets incremental) (bf_tweets backfill)))"
      then obtain incremental w1' backfill w2' where
        ci: "collectIncrementalTweets E C user (latestSeenTweetId state) w2 = (Inr incremental, w1')"
        and cb: "(if backfillDone state
              then (Inr \<lparr>bf_tweets = [], bf_nextCursor = None, bf_backfillDone = True\<rparr>, w1')
              else collectBackfillTweets E C user (backfillCursor state) w1') = (Inr backfill, w2')"
        and b: "0 \<le> sum_uploaded s0"
           "sum_uploaded s0
              \<le> total_media (select_tweets E C (inc_tweets incremental) (bf_tweets backfill))"
           "incrementalTweetsSelected s0 + backfillTweetsSelected s0
              = int (length (select_tweets E C (inc_tweets incremental) (bf_tweets backfill)))"
        by blast
      from b same have b': "0 \<le> sum_uploaded s"
           "sum_uploaded s
              \<le> total_media (select_tweets E C (inc_tweets incremental) (bf_tweets backfill))"
           "incrementalTweetsSelected s + backfillTweetsSelected s
              = int (length (select_tweets E C (inc_tweets incremental) (bf_tweets backfill)))"
        by simp_all
      from gs dn ci cb b' show ?thesis
        by (intro disjI2 exI[of _ state] exI[of _ w1] exI[of _ now] exI[of _ w2]
              exI[of _ incremental] exI[of _ w1'] exI[of _ backfill] exI[of _ w2'] conjI)
    qed
  qed
qed

lemma media_loop_append:
  "media_loop E C tweet user (xs @ ys) res files w =
     (case media_loop E C tweet user xs res files w of
        ((Some e, r, f), w1) \<Rightarrow> ((Some e, r, f), w1)
      | ((None, r, f), w1) \<Rightarrow> media_loop E C tweet user ys r f w1)"
  by (induction xs arbitrary: res files w) (auto split: prod.splits option.splits)

lemma rows_of_registry: "media_registry w' = media_registry w \<Longrightarrow> rows_of key w' = rows_of key w"
  by (simp add: rows_of_def)

lemma rows_of_markMediaUploaded_other:
  "rec_mediaKey r \<noteq> key \<Longrightarrow> rows_of key (markMediaUploaded r w) = rows_of key w"
proof -
  assume n: "rec_mediaKey r \<noteq> key"
  have "filter (\<lambda>x. rec_mediaKey x = key) (filter (\<lambda>x. rec_mediaKey x \<noteq> rec_mediaKey r) xs)
          = filter (\<lambda>x. rec_mediaKey x = key) xs" for xs
    using n by (induction xs) auto
  with n show ?thesis by (simp add: rows_of_def markMediaUploaded_def)
qed

lemma rows_of_markMediaUploaded_same:
  "rows_of (rec_mediaKey r) (markMediaUploaded r w) = [r]"
proof -
  have "filter (\<lambda>x. rec_mediaKey x = rec_mediaKey r)
          (filter (\<lambda>x. rec_mediaKey x \<noteq> rec_mediaKey r) xs) = []" for xs
    by (induction xs) auto
  then show ?thesis by (simp add: rows_of_def markMediaUploaded_def)
qed

lemma registry_removeFileSafe:
  "media_registry (snd (removeFileSafe E p w)) = media_registry w"
  by (simp add: removeFileSafe_def)

lemma rows_processMedia_other:
  assumes "makeMediaKey E (tweet_id tweet) (media_url m) \<noteq> key"
  shows "rows_of key (snd (processMedia E C tweet user m res files w)) = rows_of key w"
proof -
  let ?k = "makeMediaKey E (tweet_id tweet) (media_url m)"
  let ?dl = "withRetry (downloadMedia E ?k (media_url m) (media_type m)
                   (path_join (downloadTmpDir C) user)) 2 w"
  obtain r w1 where dl: "?dl = (r, w1)" by (cases ?dl)
  have reg1: "media_registry w1 = media_registry w"
    using registry_withRetry_downloadMedia[of E ?k "media_url m" "media_type m"
            "path_join (downloadTmpDir C) user" 2 w] dl by simp
  show ?thesis
  proof (cases "isMediaUploaded ?k w")
    case True
    then show ?thesis by (simp add: processMedia_def)
  next
    case False
    show ?thesis
    proof (cases r)
      case (Inl e)
      with False dl reg1 show ?thesis by (simp add: processMedia_def rows_of_def)
    next
      case (Inr d)
      show ?thesis
      proof (cases "mediaType d \<noteq> Photo \<and> fileSizeBytes d > maxUploadVideoBytes C")
        case False
        with \<open>\<not> isMediaUploaded ?k w\<close> dl Inr reg1 show ?thesis
          by (auto simp add: processMedia_def rows_of_def)
      next
        case True
        let ?row = "\<lparr>rec_mediaKey = ?k, rec_tweetId = tweet_id tweet,
                            rec_username = user, rec_mediaUrl = media_url m,
                            rec_mediaType = media_type m, rec_uploadedAt = now_at E (tick w1),
                            rec_telegramMessageIds = [], rec_status = SkippedOversize\<rparr>"
        let ?w3 = "markMediaUploaded ?row (w1\<lparr>tick := Suc (tick w1)\<rparr>)"
        have "media_registry (snd (processMedia E C tweet user m res files w))
                = media_registry ?w3"
          using \<open>\<not> isMediaUploaded ?k w\<close> dl Inr True
          by (auto simp add: processMedia_def Date_now_def removeFileSafe_def Let_def
                split: sum.splits)
        then have "rows_of key (snd (processMedia E C tweet user m res files w))
                = rows_of key ?w3" by (rule rows_of_registry)
        also have "\<dots> = rows_of key (w1\<lparr>tick := Suc (tick w1)\<rparr>)"
          using assms by (simp add: rows_of_markMediaUploaded_other)
        also have "\<dots> = rows_of key w" using reg1 by (simp add: rows_of_def)
        finally show ?thesis .
      qed
    qed
  qed
qed

lemma rows_media_loop_other:
  "(\<forall>m\<in>set ms. makeMediaKey E (tweet_id tweet) (media_url m) \<noteq> key) \<Longrightarrow>
     rows_of key (snd (media_loop E C tweet user ms res files w)) = rows_of key w"
proof (induction ms arbitrary: res files w)
  case Nil
  show ?case by simp
next
  case (Cons m ms)
  obtain r0 res0 files0 w0 where pm:
    "processMedia E C tweet user m res files w = ((r0, res0, files0), w0)"
    by (cases "processMedia E C tweet user m res files w") auto
  have r0: "rows_of key w0 = rows_of key w"
    using rows_processMedia_other[of E tweet m key C user res files w] pm Cons.prems by simp
  show ?case
  proof (cases r0)
    case (Some e)
    with pm r0 show ?thesis by simp
  next
    case None
    have "rows_of key (snd (media_loop E C tweet user ms res0 files0 w0)) = rows_of key w0"
      using Cons.prems by (intro Cons.IH) simp
    with pm None r0 show ?thesis by simp
  qed
qed

lemma rows_mark_loop_other:
  "(\<forall>f\<in>set fs. mediaKey f \<noteq> key) \<Longrightarrow>
     rows_of key (snd (mark_loop E tweet user ids fs res w)) = rows_of key w"
proof (induction fs arbitrary: res w)
  case Nil
  show ?case by simp
next
  case (Cons f fs)
  let ?row = "\<lparr>rec_mediaKey = mediaKey f, rec_tweetId = tweet_id tweet,
                  rec_username = user, rec_mediaUrl = mediaUrl f,
                  rec_mediaType = mediaType f, rec_uploadedAt = now_at E (tick w),
                  rec_telegramMessageIds = ids, rec_status = Uploaded\<rparr>"
  let ?w2 = "markMediaUploaded ?row (w\<lparr>tick := Suc (tick w)\<rparr>)"
  have "rows_of key (snd (mark_loop E tweet user ids (f # fs) res w))
          = rows_of key (snd (mark_loop E tweet user ids fs (res\<lparr>uploaded := uploaded res + 1\<rparr>) ?w2))"
    by (simp add: Date_now_def Let_def)
  also have "\<dots> = rows_of key ?w2" using Cons.prems by (intro Cons.IH) simp
  also have "\<dots> = rows_of key (w\<lparr>tick := Suc (tick w)\<rparr>)"
    using Cons.prems by (simp add: rows_of_markMediaUploaded_other)
  also have "\<dots> = rows_of key w" by (simp add: rows_of_def)
  finally show ?case .
qed

lemma registry_send_chunks:
  "media_registry (snd (send_chunks E input chunks i acc w)) = media_registry w"
  by (induction chunks arbitrary: i acc w) (simp_all add: Let_def split: sum.splits)

lemma registry_sendTweetMediaGroup:
  "media_registry (snd (sendTweetMediaGroup E input w)) = media_registry w"
  by (auto simp add: sendTweetMediaGroup_def ensureConnected_def registry_send_chunks Let_def
        split: prod.splits sum.splits if_splits)

lemma registry_withRetry_sendTweetMediaGroup:
  "media_registry (snd (withRetry (sendTweetMediaGroup E input) n w)) = media_registry w"
  unfolding withRetry_def
  by (rule withRetry_loop_rel[where R = "\<lambda>a b. media_registry b = media_registry a"])
     (simp_all add: registry_sendTweetMediaGroup)

text \<open>What \<^verbatim>\<open>processTweet\<close> does after its loop over the media, for a key and a path that
  are not among those of the files to send.\<close>

lemma processTweet_after_loop:
  assumes ml: "media_loop E C tweet user (media tweet)
                 \<lparr>uploaded = 0, skipped = 0, failed = 0\<rparr> [] w = ((r2, res2, files2), w5)"
    and keys: "\<forall>d\<in>set files2. mediaKey d \<noteq> key"
    and paths: "\<forall>d\<in>set files2. path d \<noteq> p"
  shows "rows_of key (snd (processTweet E C tweet user w)) = rows_of key w5
     \<and> frame (no_send_of p) w5 (snd (processTweet E C tweet user w))
     \<and> (\<forall>r. fst (processTweet E C tweet user w) = Inr r \<longrightarrow>
            skipped r = skipped res2
          \<and> uploaded r \<le> uploaded res2 + int (length files2))"
proof -
  let ?P = "no_send_of p"
  let ?input = "\<lparr>g_tweetUrl = tweetUrl tweet, g_username = user,
                   g_postedAt = postedAt tweet, g_mediaFiles = files2\<rparr>"
  have rm: "\<And>q. ?P (EvRemoveFile q)" by (simp add: no_send_of_def)
  have cl: "rows_of key (snd (cleanup E files2 res wa)) = rows_of key wa
            \<and> frame ?P wa (snd (cleanup E files2 res wa))
            \<and> (\<forall>r. fst (cleanup E files2 res wa) = Inr r \<longrightarrow> r = res)" for res wa
  proof -
    have "rows_of key (snd (cleanup E files2 res wa)) = rows_of key wa"
      by (rule rows_of_registry) (rule registry_cleanup)
    moreover have "frame ?P wa (snd (cleanup E files2 res wa))"
      by (rule frame_cleanup) (rule rm)
    moreover have "\<forall>r. fst (cleanup E files2 res wa) = Inr r \<longrightarrow> r = res"
      using cleanup_result[of E files2 res wa] by (cases "cleanup E files2 res wa") auto
    ultimately show ?thesis by blast
  qed
  show ?thesis
  proof (cases r2)
    case (Some e)
    with ml have "processTweet E C tweet user w
                    = cleanup E files2 (res2\<lparr>failed := failed res2 + 1\<rparr>) w5"
      by (simp add: processTweet_def)
    with cl[of "res2\<lparr>failed := failed res2 + 1\<rparr>" w5] show ?thesis by auto
  next
    case None
    show ?thesis
    proof (cases "files2 = []")
      case True
      with None ml have "processTweet E C tweet user w = cleanup E files2 res2 w5"
        by (simp add: processTweet_def)
      with cl[of res2 w5] show ?thesis by auto
    next
      case False
      obtain sr w6 where sd: "withRetry (sendTweetMediaGroup E ?input) 2 w5 = (sr, w6)"
        by (cases "withRetry (sendTweetMediaGroup E ?input) 2 w5")
      have reg6: "rows_of key w6 = rows_of key w5"
        using registry_withRetry_sendTweetMediaGroup[of E ?input 2 w5] sd
        by (simp add: rows_of_def)
      have "frame ?P wa (snd (sendTweetMediaGroup E ?input wa))" for wa
      proof (rule frame_sendTweetMediaGroup)
        show "?P EvConnect" by (simp add: no_send_of_def)
      next
        fix ps cap assume "set ps \<subseteq> path ` set (g_mediaFiles ?input)"
        with paths have "p \<notin> set ps" by auto
        then show "?P (EvSendFile ps cap)" by (simp add: no_send_of_def)
      qed
      then have "frame ?P w5 (snd (withRetry (sendTweetMediaGroup E ?input) 2 w5))"
        by (rule frame_withRetry)
      with sd have f56: "frame ?P w5 w6" by simp
      show ?thesis
      proof (cases sr)
        case (Inl e)
        with None False ml sd have "processTweet E C tweet user w
                    = cleanup E files2 (res2\<lparr>failed := failed res2 + 1\<rparr>) w6"
          by (simp add: processTweet_def)
        with cl[of "res2\<lparr>failed := failed res2 + 1\<rparr>" w6] reg6 f56 show ?thesis
          by (auto intro: frame_trans)
      next
        case (Inr ids)
        let ?mk = "mark_loop E tweet user ids files2 res2 w6"
        from None False ml sd Inr have pt: "processTweet E C tweet user w
                    = cleanup E files2 (fst ?mk) (snd ?mk)"
          by (simp add: processTweet_def split: prod.splits)
        have rk: "rows_of key (snd ?mk) = rows_of key w6"
          using keys by (rule rows_mark_loop_other)
        have fk: "frame ?P w6 (snd ?mk)" by (rule frame_mark_loop)
        have rs: "fst ?mk = res2\<lparr>uploaded := uploaded res2 + int (length files2)\<rparr>"
          by (rule mark_loop_result)
        from f56 fk have "frame ?P w5 (snd ?mk)" by (rule frame_trans)
        with pt cl[of "fst ?mk" "snd ?mk"] rk reg6 rs show ?thesis
          by (auto intro: frame_trans)
      qed
    qed
  qed
qed

lemma isMediaUploaded_rows: "isMediaUploaded k w \<longleftrightarrow> rows_of k w \<noteq> []"
  by (auto simp add: isMediaUploaded_def rows_of_def filter_empty_conv)

section \<open>The claims\<close>

subsection \<open>Dedupe is permanent\<close>

text \<open>
  Claim C1. The table \<^verbatim>\<open>media_registry\<close> never holds two rows with one \<^verbatim>\<open>media_key\<close>, and a
  media whose key is registered is never downloaded or sent again: the iteration of
  \<^verbatim>\<open>processTweet\<close> that meets it adds one to \<open>skipped\<close> and changes nothing else, and over
  the whole of \<^verbatim>\<open>processTweet\<close> no download of that key is started, no \<^verbatim>\<open>sendFile\<close> call
  carries its file, the key stays registered, and the keys of the table stay distinct.
  The same holds for a whole run that starts in a world where the key is registered: the
  run starts no download of that key, and so has no file of that media to send, the key is
  registered when the run ends, and the keys of the table stay distinct.
\<close>

theorem registered_media_never_resent:
  assumes reg: "isMediaUploaded (makeMediaKey E (tweet_id tweet) (media_url m)) w"
  shows "processMedia E C tweet user m res files w
           = ((None, res\<lparr>skipped := skipped res + 1\<rparr>, files), w)
       \<and> (\<forall>u. EvDownload (makeMediaKey E (tweet_id tweet) (media_url m)) u
               \<notin> set (new_events w (snd (processTweet E C tweet user w))))
       \<and> (\<forall>ps cap t. EvSendFile ps cap \<in> set (new_events w (snd (processTweet E C tweet user w)))
             \<longrightarrow> path_join (path_join (downloadTmpDir C) user)
                    (makeMediaKey E (tweet_id tweet) (media_url m) @ extensionByType t) \<notin> set ps)
       \<and> isMediaUploaded (makeMediaKey E (tweet_id tweet) (media_url m))
            (snd (processTweet E C tweet user w))
       \<and> (distinct (map rec_mediaKey (media_registry w))
            \<longrightarrow> distinct (map rec_mediaKey (media_registry (snd (processTweet E C tweet user w)))))
       \<and> (\<forall>u. EvDownload (makeMediaKey E (tweet_id tweet) (media_url m)) u
               \<notin> set (new_events w (snd (run E C w))))
       \<and> isMediaUploaded (makeMediaKey E (tweet_id tweet) (media_url m)) (snd (run E C w))
       \<and> (distinct (map rec_mediaKey (media_registry w))
            \<longrightarrow> distinct (map rec_mediaKey (media_registry (snd (run E C w)))))"
proof -
  let ?key = "makeMediaKey E (tweet_id tweet) (media_url m)"
  let ?dir = "path_join (downloadTmpDir C) user"
  let ?P = "\<lambda>e. (\<forall>u. e \<noteq> EvDownload ?key u)
                \<and> (\<forall>ps cap t. e = EvSendFile ps cap
                      \<longrightarrow> path_join ?dir (?key @ extensionByType t) \<notin> set ps)"
  have fr: "frame ?P w (snd (processTweet E C tweet user w))"
  proof (rule frame_processTweet[where P = ?P])
    show "\<forall>m'\<in>set (media tweet).
            \<not> isMediaUploaded (makeMediaKey E (tweet_id tweet) (media_url m')) w
            \<longrightarrow> ?P (EvDownload (makeMediaKey E (tweet_id tweet) (media_url m')) (media_url m'))"
      using reg by auto
  next
    fix ps cap
    assume a: "\<forall>p\<in>set ps. \<exists>d. file_ok C user w d \<and> p = path d"
    have "path_join ?dir (?key @ extensionByType t) \<notin> set ps" for t
    proof
      assume "path_join ?dir (?key @ extensionByType t) \<in> set ps"
      with a obtain d where d: "file_ok C user w d"
        "path_join ?dir (?key @ extensionByType t) = path d" by auto
      then have "?key = mediaKey d"
        by (auto simp add: file_ok_def dest: path_join_key_inj)
      with d(1) reg show False by (simp add: file_ok_def)
    qed
    then show "?P (EvSendFile ps cap)" by simp
  qed simp_all
  have step: "processMedia E C tweet user m res files w
           = ((None, res\<lparr>skipped := skipped res + 1\<rparr>, files), w)"
    using reg by (simp add: processMedia_def)
  from frame_new_events[OF fr]
  have ev: "\<forall>e\<in>set (new_events w (snd (processTweet E C tweet user w))). ?P e"
    by (simp add: list_all_iff)
  have dist: "distinct (map rec_mediaKey (media_registry w))
            \<longrightarrow> distinct (map rec_mediaKey (media_registry (snd (processTweet E C tweet user w))))"
    using fr by (simp add: frame_def keys_of_def)
  have still: "isMediaUploaded ?key (snd (processTweet E C tweet user w))"
    using fr reg by (rule frame_keys_mono)
  have rr: "reg_frame (no_download ?key) w (snd (run E C w))"
    using reg by (rule reg_frame_run)
  from reg_frame_new_events[OF rr]
  have "\<forall>e\<in>set (new_events w (snd (run E C w))). no_download ?key e"
    by (simp add: list_all_iff)
  then have rdl: "\<forall>u. EvDownload ?key u \<notin> set (new_events w (snd (run E C w)))"
    by (auto simp add: no_download_def)
  have rstill: "isMediaUploaded ?key (snd (run E C w))"
    using rr reg by (rule reg_frame_keys_mono)
  have rdist: "distinct (map rec_mediaKey (media_registry w))
            \<longrightarrow> distinct (map rec_mediaKey (media_registry (snd (run E C w))))"
    using rr by (simp add: reg_frame_def keys_of_def)
  from step ev dist still rdl rstill rdist show ?thesis by blast
qed

theorem registered_media_never_resent_witness:
  "isMediaUploaded
     (makeMediaKey demo_env (tweet_id (demo_tweet ''alice'')) (media_url (demo_media ''alice'')))
     demo_world_registered
   \<and> processMedia demo_env demo_config (demo_tweet ''alice'') ''alice'' (demo_media ''alice'')
        \<lparr>uploaded = 0, skipped = 0, failed = 0\<rparr> [] demo_world_registered
       = ((None, \<lparr>uploaded = 0, skipped = 1, failed = 0\<rparr>, []), demo_world_registered)
   \<and> distinct (map rec_mediaKey (media_registry
        (snd (processTweet demo_env demo_config (demo_tweet ''alice'') ''alice''
               demo_world_registered))))
   \<and> isMediaUploaded
        (makeMediaKey demo_env (tweet_id (demo_tweet ''alice'')) (media_url (demo_media ''alice'')))
        (snd (run demo_env demo_config demo_world_registered))
   \<and> distinct (map rec_mediaKey (media_registry
        (snd (run demo_env demo_config demo_world_registered))))"
proof -
  have h: "isMediaUploaded
     (makeMediaKey demo_env (tweet_id (demo_tweet ''alice'')) (media_url (demo_media ''alice'')))
     demo_world_registered"
    by (simp add: isMediaUploaded_def makeMediaKey_def demo_env_def demo_tweet_def
          demo_media_def demo_world_registered_def demo_world_def)
  have d: "distinct (map rec_mediaKey (media_registry demo_world_registered))"
    by (simp add: demo_world_registered_def demo_world_def)
  from registered_media_never_resent[OF h, of demo_config "''alice''"
         "\<lparr>uploaded = 0, skipped = 0, failed = 0\<rparr>" "[]"] h d
  show ?thesis by simp
qed

subsection \<open>The media budget\<close>

text \<open>
  Claim C2 fails on the code for a run over two accounts: with a budget of one media, one
  post of one media for each account, every download and send succeeding, the run uploads
  two media.
\<close>

theorem run_exceeds_budget_counterexample:
  "maxMediaPerRun demo_config = 1
   \<and> twitterUsers demo_config = [''alice'', ''bob'']
   \<and> media_count (demo_tweet ''alice'') = 1
   \<and> media_count (demo_tweet ''bob'') = 1
   \<and> total_uploaded (fst (run demo_env demo_config demo_world)) = 2"
  by (simp add: run_def acquireJobLock_def releaseJobLock_def engine_defs report_defs
        demo_defs total_uploaded_def media_count_def)

text \<open>
  Claim C2, as amended. The media budget is reset for every account, so the bound holds for
  each account of a run and not for the run: the number of media uploaded for an account is
  at most \<^verbatim>\<open>MAX_MEDIA_PER_RUN\<close>, unless the first post selected from what the two fetches of
  the account returned alone exceeds the budget; then it is the only post selected for the
  account and the number uploaded is at most its media count. The selection traverses the
  incremental candidates and then the backfill candidates, stops when the remaining budget
  is not positive, and skips a post whose media count exceeds the remaining budget once a
  post has been selected.
\<close>

theorem budget_bounds_each_account:
  "(\<forall>s w'. processAccount E C user w = (Inr s, w') \<longrightarrow>
       0 \<le> sum_uploaded s
     \<and> (sum_uploaded s \<le> max (maxMediaPerRun C) 0
        \<or> (\<exists>state w1 now w2 incremental w3 backfill w4 t.
              getAccountState E user w = (state, w1) \<and> Date_now E w1 = (now, w2)
            \<and> collectIncrementalTweets E C user (latestSeenTweetId state) w2
                 = (Inr incremental, w3)
            \<and> (if backfillDone state
                 then (Inr \<lparr>bf_tweets = [], bf_nextCursor = None, bf_backfillDone = True\<rparr>, w3)
                 else collectBackfillTweets E C user (backfillCursor state) w3)
                 = (Inr backfill, w4)
            \<and> select_tweets E C (inc_tweets incremental) (bf_tweets backfill) = [t]
            \<and> maxMediaPerRun C < media_count t
            \<and> sum_uploaded s \<le> media_count t
            \<and> incrementalTweetsSelected s + backfillTweetsSelected s = 1)))
   \<and> (\<forall>inc bf. total_media (select_tweets E C inc bf) \<le> max (maxMediaPerRun C) 0
         \<or> (\<exists>t. select_tweets E C inc bf = [t] \<and> maxMediaPerRun C < media_count t))
   \<and> (\<forall>inc bf. select_tweets E C inc bf =
         select_loop (maxMediaPerRun C) []
           (filter (\<lambda>t. tweet_id t \<in> set (map tweet_id inc)) (mergeUniqueTweets E (inc @ bf)) @
            filter (\<lambda>t. tweet_id t \<notin> set (map tweet_id inc)) (mergeUniqueTweets E (inc @ bf))))
   \<and> (\<forall>b sel cands. b \<le> 0 \<longrightarrow> select_loop b sel cands = sel)
   \<and> (\<forall>b sel t rest. 0 < b \<and> b < media_count t \<and> sel \<noteq> []
         \<longrightarrow> select_loop b sel (t # rest) = select_loop b sel rest)
   \<and> (\<forall>b sel t rest. 0 < b \<and> (media_count t \<le> b \<or> sel = [])
         \<longrightarrow> select_loop b sel (t # rest) = select_loop (b - media_count t) (sel @ [t]) rest)"
proof (intro conjI allI impI)
  fix s w' assume pa: "processAccount E C user w = (Inr s, w')"
  from processAccount_uploaded[OF pa] show "0 \<le> sum_uploaded s" by auto
next
  fix s w' assume pa: "processAccount E C user w = (Inr s, w')"
  let ?exc = "\<exists>state w1 now w2 incremental w3 backfill w4 t.
              getAccountState E user w = (state, w1) \<and> Date_now E w1 = (now, w2)
            \<and> collectIncrementalTweets E C user (latestSeenTweetId state) w2
                 = (Inr incremental, w3)
            \<and> (if backfillDone state
                 then (Inr \<lparr>bf_tweets = [], bf_nextCursor = None, bf_backfillDone = True\<rparr>, w3)
                 else collectBackfillTweets E C user (backfillCursor state) w3)
                 = (Inr backfill, w4)
            \<and> select_tweets E C (inc_tweets incremental) (bf_tweets backfill) = [t]
            \<and> maxMediaPerRun C < media_count t
            \<and> sum_uploaded s \<le> media_count t
            \<and> incrementalTweetsSelected s + backfillTweetsSelected s = 1"
  from processAccount_selection[OF pa]
  show "sum_uploaded s \<le> max (maxMediaPerRun C) 0 \<or> ?exc"
  proof
    assume "sum_uploaded s = 0"
    then show ?thesis by simp
  next
    assume "\<exists>state w1 now w2 incremental w3 backfill w4.
           getAccountState E user w = (state, w1) \<and> Date_now E w1 = (now, w2)
         \<and> collectIncrementalTweets E C user (latestSeenTweetId state) w2 = (Inr incremental, w3)
         \<and> (if backfillDone state
              then (Inr \<lparr>bf_tweets = [], bf_nextCursor = None, bf_backfillDone = True\<rparr>, w3)
              else collectBackfillTweets E C user (backfillCursor state) w3) = (Inr backfill, w4)
         \<and> 0 \<le> sum_uploaded s
         \<and> sum_uploaded s
              \<le> total_media (select_tweets E C (inc_tweets incremental) (bf_tweets backfill))
         \<and> incrementalTweetsSelected s + backfillTweetsSelected s
              = int (length (select_tweets E C (inc_tweets incremental) (bf_tweets backfill)))"
    then obtain state w1 now w2 incremental w3 backfill w4 where
      gs: "getAccountState E user w = (state, w1)" and dn: "Date_now E w1 = (now, w2)"
      and ci: "collectIncrementalTweets E C user (latestSeenTweetId state) w2 = (Inr incremental, w3)"
      and cb: "(if backfillDone state
              then (Inr \<lparr>bf_tweets = [], bf_nextCursor = None, bf_backfillDone = True\<rparr>, w3)
              else collectBackfillTweets E C user (backfillCursor state) w3) = (Inr backfill, w4)"
      and b: "sum_uploaded s
              \<le> total_media (select_tweets E C (inc_tweets incremental) (bf_tweets backfill))"
      and n: "incrementalTweetsSelected s + backfillTweetsSelected s
              = int (length (select_tweets E C (inc_tweets incremental) (bf_tweets backfill)))"
      by blast
    let ?sel = "select_tweets E C (inc_tweets incremental) (bf_tweets backfill)"
    from select_tweets_bound[of E C "inc_tweets incremental" "bf_tweets backfill"]
    show ?thesis
    proof
      assume "total_media ?sel \<le> max (maxMediaPerRun C) 0"
      with b show ?thesis by simp
    next
      assume "\<exists>t. ?sel = [t] \<and> maxMediaPerRun C < media_count t"
      then obtain t where t: "?sel = [t]" "maxMediaPerRun C < media_count t" by blast
      with b n have "sum_uploaded s \<le> media_count t"
        "incrementalTweetsSelected s + backfillTweetsSelected s = 1" by simp_all
      with gs dn ci cb t have ?exc
        by (intro exI[of _ state] exI[of _ w1] exI[of _ now] exI[of _ w2]
              exI[of _ incremental] exI[of _ w3] exI[of _ backfill] exI[of _ w4] exI[of _ t] conjI)
      then show ?thesis by (rule disjI2)
    qed
  qed
next
  fix inc bf
  show "total_media (select_tweets E C inc bf) \<le> max (maxMediaPerRun C) 0
         \<or> (\<exists>t. select_tweets E C inc bf = [t] \<and> maxMediaPerRun C < media_count t)"
    by (rule select_tweets_bound)
next
  fix inc bf
  show "select_tweets E C inc bf =
         select_loop (maxMediaPerRun C) []
           (filter (\<lambda>t. tweet_id t \<in> set (map tweet_id inc)) (mergeUniqueTweets E (inc @ bf)) @
            filter (\<lambda>t. tweet_id t \<notin> set (map tweet_id inc)) (mergeUniqueTweets E (inc @ bf)))"
    by (simp add: select_tweets_def candidates_def Let_def)
next
  fix b :: int and sel cands :: "MediaTweet list" assume "b \<le> 0"
  then show "select_loop b sel cands = sel" by (rule select_loop_stop)
next
  fix b :: int and sel rest :: "MediaTweet list" and t :: MediaTweet
  assume "0 < b \<and> b < media_count t \<and> sel \<noteq> []"
  then show "select_loop b sel (t # rest) = select_loop b sel rest"
    by (simp add: media_count_def Let_def)
next
  fix b :: int and sel rest :: "MediaTweet list" and t :: MediaTweet
  assume "0 < b \<and> (media_count t \<le> b \<or> sel = [])"
  then show "select_loop b sel (t # rest) = select_loop (b - media_count t) (sel @ [t]) rest"
    by (auto simp add: media_count_def Let_def)
qed

theorem budget_bounds_each_account_witness:
  "processAccount demo_env demo_config ''alice'' demo_world
     = (Inr \<lparr>sum_username = ''alice'', sum_uploaded = 1, sum_skipped = 0, sum_failed = 0,
             incrementalTweetsSelected = 1, backfillTweetsSelected = 0,
             incrementalTweetsCandidates = 1, backfillTweetsCandidates = 0,
             sum_backfillDone = True, cooldownActive = False, cooldownUntil = None\<rparr>,
        snd (processAccount demo_env demo_config ''alice'' demo_world))
   \<and> (1::int) \<le> max (maxMediaPerRun demo_config) 0
   \<and> processAccount demo_env_big demo_config ''alice'' demo_world
     = (Inr \<lparr>sum_username = ''alice'', sum_uploaded = 2, sum_skipped = 0, sum_failed = 0,
             incrementalTweetsSelected = 1, backfillTweetsSelected = 0,
             incrementalTweetsCandidates = 1, backfillTweetsCandidates = 0,
             sum_backfillDone = True, cooldownActive = False, cooldownUntil = None\<rparr>,
        snd (processAccount demo_env_big demo_config ''alice'' demo_world))
   \<and> \<not> (2::int) \<le> max (maxMediaPerRun demo_config) 0
   \<and> (\<exists>state w1 now w2 incremental w3 backfill w4 t.
              getAccountState demo_env_big ''alice'' demo_world = (state, w1)
            \<and> Date_now demo_env_big w1 = (now, w2)
            \<and> collectIncrementalTweets demo_env_big demo_config ''alice''
                 (latestSeenTweetId state) w2 = (Inr incremental, w3)
            \<and> (if backfillDone state
                 then (Inr \<lparr>bf_tweets = [], bf_nextCursor = None, bf_backfillDone = True\<rparr>, w3)
                 else collectBackfillTweets demo_env_big demo_config ''alice''
                        (backfillCursor state) w3)
                 = (Inr backfill, w4)
            \<and> select_tweets demo_env_big demo_config (inc_tweets incremental)
                 (bf_tweets backfill) = [t]
            \<and> maxMediaPerRun demo_config < media_count t
            \<and> sum_uploaded 
                 \<lparr>sum_username = ''alice'', sum_uploaded = 2, sum_skipped = 0, sum_failed = 0,
             incrementalTweetsSelected = 1, backfillTweetsSelected = 0,
             incrementalTweetsCandidates = 1, backfillTweetsCandidates = 0,
             sum_backfillDone = True, cooldownActive = False, cooldownUntil = None\<rparr> \<le> media_count t
            \<and> incrementalTweetsSelected 
                 \<lparr>sum_username = ''alice'', sum_uploaded = 2, sum_skipped = 0, sum_failed = 0,
             incrementalTweetsSelected = 1, backfillTweetsSelected = 0,
             incrementalTweetsCandidates = 1, backfillTweetsCandidates = 0,
             sum_backfillDone = True, cooldownActive = False, cooldownUntil = None\<rparr> + backfillTweetsSelected 
                 \<lparr>sum_username = ''alice'', sum_uploaded = 2, sum_skipped = 0, sum_failed = 0,
             incrementalTweetsSelected = 1, backfillTweetsSelected = 0,
             incrementalTweetsCandidates = 1, backfillTweetsCandidates = 0,
             sum_backfillDone = True, cooldownActive = False, cooldownUntil = None\<rparr> = 1)
   \<and> (0::int) \<le> 0 \<and> select_loop 0 [] [demo_tweet2] = []
   \<and> (0::int) < 1 \<and> 1 < media_count demo_tweet2 \<and> [demo_tweet ''alice''] \<noteq> []
   \<and> select_loop 1 [demo_tweet ''alice''] [demo_tweet2, demo_tweet ''bob'']
        = select_loop 1 [demo_tweet ''alice''] [demo_tweet ''bob'']
   \<and> select_loop 1 [] [demo_tweet2, demo_tweet ''bob'']
        = select_loop (1 - media_count demo_tweet2) ([] @ [demo_tweet2]) [demo_tweet ''bob'']
   \<and> total_media (select_tweets demo_env demo_config [demo_tweet2] []) = 2"
proof -
  let ?s = "\<lparr>sum_username = ''alice'', sum_uploaded = 1, sum_skipped = 0, sum_failed = 0,
             incrementalTweetsSelected = 1, backfillTweetsSelected = 0,
             incrementalTweetsCandidates = 1, backfillTweetsCandidates = 0,
             sum_backfillDone = True, cooldownActive = False, cooldownUntil = None\<rparr>"
  let ?s2 = "\<lparr>sum_username = ''alice'', sum_uploaded = 2, sum_skipped = 0, sum_failed = 0,
             incrementalTweetsSelected = 1, backfillTweetsSelected = 0,
             incrementalTweetsCandidates = 1, backfillTweetsCandidates = 0,
             sum_backfillDone = True, cooldownActive = False, cooldownUntil = None\<rparr>"
  have f: "fst (processAccount demo_env demo_config ''alice'' demo_world) = Inr ?s"
    by (simp add: engine_defs demo_defs)
  then have h1: "processAccount demo_env demo_config ''alice'' demo_world
     = (Inr ?s, snd (processAccount demo_env demo_config ''alice'' demo_world))"
    by (metis prod.collapse)
  have f2: "fst (processAccount demo_env_big demo_config ''alice'' demo_world) = Inr ?s2"
    by (simp add: engine_defs demo_defs demo_env_big_def demo_tweet2_def)
  then have h3: "processAccount demo_env_big demo_config ''alice'' demo_world
     = (Inr ?s2, snd (processAccount demo_env_big demo_config ''alice'' demo_world))"
    by (metis prod.collapse)
  have h2: "1 < media_count demo_tweet2" by (simp add: media_count_def demo_tweet2_def)
  have sel2: "total_media (select_tweets demo_env demo_config [demo_tweet2] []) = 2"
    by (simp add: select_tweets_def candidates_def mergeUniqueTweets_def demo_config_def
          demo_tweet2_def total_media_def media_count_def)
  note T = budget_bounds_each_account[of demo_env demo_config "''alice''" demo_world]
  note T2 = budget_bounds_each_account[of demo_env_big demo_config "''alice''" demo_world]
  from T have stopR: "\<forall>b sel cands. b \<le> 0 \<longrightarrow> select_loop b sel cands = sel" by blast
  from T have skipR: "\<forall>b sel t rest. 0 < b \<and> b < media_count t \<and> sel \<noteq> []
         \<longrightarrow> select_loop b sel (t # rest) = select_loop b sel rest" by blast
  from T have takeR: "\<forall>b sel t rest. 0 < b \<and> (media_count t \<le> b \<or> sel = [])
         \<longrightarrow> select_loop b sel (t # rest) = select_loop (b - media_count t) (sel @ [t]) rest"
    by blast
  have z: "(0::int) \<le> 0" by simp
  have p: "(0::int) < 1" by simp
  have ne: "[demo_tweet ''alice''] \<noteq> []" by simp
  from stopR z have stop: "select_loop 0 [] [demo_tweet2] = []" by blast
  from skipR p h2 ne
  have skip: "select_loop 1 [demo_tweet ''alice''] [demo_tweet2, demo_tweet ''bob'']
        = select_loop 1 [demo_tweet ''alice''] [demo_tweet ''bob'']"
    by blast
  from takeR p
  have take: "select_loop 1 [] [demo_tweet2, demo_tweet ''bob'']
        = select_loop (1 - media_count demo_tweet2) ([] @ [demo_tweet2]) [demo_tweet ''bob'']"
    by blast
  have b: "(1::int) \<le> max (maxMediaPerRun demo_config) 0" by (simp add: demo_config_def)
  have nb: "\<not> (2::int) \<le> max (maxMediaPerRun demo_config) 0" by (simp add: demo_config_def)
  from T2 h3 have disj: "sum_uploaded ?s2 \<le> max (maxMediaPerRun demo_config) 0
        \<or> (\<exists>state w1 now w2 incremental w3 backfill w4 t.
              getAccountState demo_env_big ''alice'' demo_world = (state, w1)
            \<and> Date_now demo_env_big w1 = (now, w2)
            \<and> collectIncrementalTweets demo_env_big demo_config ''alice''
                 (latestSeenTweetId state) w2 = (Inr incremental, w3)
            \<and> (if backfillDone state
                 then (Inr \<lparr>bf_tweets = [], bf_nextCursor = None, bf_backfillDone = True\<rparr>, w3)
                 else collectBackfillTweets demo_env_big demo_config ''alice''
                        (backfillCursor state) w3)
                 = (Inr backfill, w4)
            \<and> select_tweets demo_env_big demo_config (inc_tweets incremental)
                 (bf_tweets backfill) = [t]
            \<and> maxMediaPerRun demo_config < media_count t
            \<and> sum_uploaded ?s2 \<le> media_count t
            \<and> incrementalTweetsSelected ?s2 + backfillTweetsSelected ?s2 = 1)"
    (is "?P \<or> ?Q")
    by blast
  have np: "\<not> ?P" by (simp add: demo_config_def)
  have exc: "?Q"
  proof (rule disjE[OF disj])
    assume "?P"
    with np show "?Q" by (rule notE)
  next
    assume "?Q"
    then show "?Q" .
  qed
  from h1 b h3 nb exc z stop p h2 ne skip take sel2 show ?thesis by blast
qed

subsection \<open>A failed account keeps its cursor\<close>




subsection \<open>The job lock\<close>

text \<open>
  Claim C4. \<^verbatim>\<open>acquireJobLock\<close> reads the lock row and decides in one step. When the row is
  absent or its \<^verbatim>\<open>locked_until\<close> is not after the clock, it writes the row
  \<open>(job, now + 1000 * ttl, holder)\<close> and returns true; otherwise it returns false, which
  is a value and not an error, and leaves the table as it is. A second caller that comes
  before the expiry written by the first does not succeed. The expiry is assumed to be a
  valid date.
\<close>

theorem acquireJobLock_contract:
  assumes valid: "\<bar>now_at E (tick w) + ttl * 1000\<bar> \<le> 8640000000000000"
  shows "((job_lock w job = None
            \<or> (\<exists>row. job_lock w job = Some row \<and> locked_until row \<le> now_at E (tick w)))
          \<longrightarrow> fst (acquireJobLock E job holder ttl w) = Inr True
              \<and> job_lock (snd (acquireJobLock E job holder ttl w))
                  = (job_lock w)(job \<mapsto>
                       \<lparr>locked_until = now_at E (tick w) + ttl * 1000, holder_id = holder\<rparr>))
       \<and> ((\<exists>row. job_lock w job = Some row \<and> locked_until row > now_at E (tick w))
          \<longrightarrow> fst (acquireJobLock E job holder ttl w) = Inr False
              \<and> job_lock (snd (acquireJobLock E job holder ttl w)) = job_lock w)
       \<and> (\<forall>holder2 ttl2.
             fst (acquireJobLock E job holder ttl w) = Inr True
             \<and> now_at E (Suc (tick w)) < now_at E (tick w) + ttl * 1000
             \<longrightarrow> fst (acquireJobLock E job holder2 ttl2
                        (snd (acquireJobLock E job holder ttl w))) \<noteq> Inr True
                 \<and> job_lock (snd (acquireJobLock E job holder2 ttl2
                        (snd (acquireJobLock E job holder ttl w))))
                     = job_lock (snd (acquireJobLock E job holder ttl w)))"
proof (intro conjI impI allI)
  assume "job_lock w job = None
            \<or> (\<exists>row. job_lock w job = Some row \<and> locked_until row \<le> now_at E (tick w))"
  with valid show "fst (acquireJobLock E job holder ttl w) = Inr True"
    by (auto simp add: acquireJobLock_def Date_now_def toISOString_def)
next
  assume "job_lock w job = None
            \<or> (\<exists>row. job_lock w job = Some row \<and> locked_until row \<le> now_at E (tick w))"
  with valid show "job_lock (snd (acquireJobLock E job holder ttl w))
                  = (job_lock w)(job \<mapsto>
                       \<lparr>locked_until = now_at E (tick w) + ttl * 1000, holder_id = holder\<rparr>)"
    by (auto simp add: acquireJobLock_def Date_now_def toISOString_def)
next
  assume "\<exists>row. job_lock w job = Some row \<and> locked_until row > now_at E (tick w)"
  with valid show "fst (acquireJobLock E job holder ttl w) = Inr False"
    by (auto simp add: acquireJobLock_def Date_now_def toISOString_def)
next
  assume "\<exists>row. job_lock w job = Some row \<and> locked_until row > now_at E (tick w)"
  with valid show "job_lock (snd (acquireJobLock E job holder ttl w)) = job_lock w"
    by (auto simp add: acquireJobLock_def Date_now_def toISOString_def)
next
  fix holder2 ttl2
  assume a: "fst (acquireJobLock E job holder ttl w) = Inr True
             \<and> now_at E (Suc (tick w)) < now_at E (tick w) + ttl * 1000"
  let ?w1 = "snd (acquireJobLock E job holder ttl w)"
  from a valid have row: "job_lock ?w1 job
      = Some \<lparr>locked_until = now_at E (tick w) + ttl * 1000, holder_id = holder\<rparr>"
    and tk: "tick ?w1 = Suc (tick w)"
    by (auto simp add: acquireJobLock_def Date_now_def toISOString_def
          split: option.splits if_splits)
  with a show "fst (acquireJobLock E job holder2 ttl2 ?w1) \<noteq> Inr True"
    by (auto simp add: acquireJobLock_def[of E job holder2 ttl2] Date_now_def
          split: sum.splits)
next
  fix holder2 ttl2
  assume a: "fst (acquireJobLock E job holder ttl w) = Inr True
             \<and> now_at E (Suc (tick w)) < now_at E (tick w) + ttl * 1000"
  let ?w1 = "snd (acquireJobLock E job holder ttl w)"
  from a valid have row: "job_lock ?w1 job
      = Some \<lparr>locked_until = now_at E (tick w) + ttl * 1000, holder_id = holder\<rparr>"
    and tk: "tick ?w1 = Suc (tick w)"
    by (auto simp add: acquireJobLock_def Date_now_def toISOString_def
          split: option.splits if_splits)
  with a show "job_lock (snd (acquireJobLock E job holder2 ttl2 ?w1)) = job_lock ?w1"
    by (auto simp add: acquireJobLock_def[of E job holder2 ttl2] Date_now_def
          split: sum.splits)
qed

theorem acquireJobLock_contract_witness:
  "\<bar>now_at demo_env (tick demo_world) + 10 * 1000\<bar> \<le> 8640000000000000
   \<and> job_lock demo_world ''daily-sync'' = None
   \<and> fst (acquireJobLock demo_env ''daily-sync'' ''sync-7-0'' 10 demo_world) = Inr True
   \<and> now_at demo_env (Suc (tick demo_world)) < now_at demo_env (tick demo_world) + 10 * 1000
   \<and> fst (acquireJobLock demo_env ''daily-sync'' ''sync-8-1000'' 10
             (snd (acquireJobLock demo_env ''daily-sync'' ''sync-7-0'' 10 demo_world)))
        \<noteq> Inr True"
proof -
  have v: "\<bar>now_at demo_env (tick demo_world) + 10 * 1000\<bar> \<le> 8640000000000000"
    by (simp add: demo_env_def demo_world_def)
  have n: "job_lock demo_world ''daily-sync'' = None"
    by (simp add: demo_world_def)
  have t: "now_at demo_env (Suc (tick demo_world)) < now_at demo_env (tick demo_world) + 10 * 1000"
    by (simp add: demo_env_def demo_world_def)
  from acquireJobLock_contract[OF v, of "''daily-sync''" "''sync-7-0''"] n t v
  show ?thesis by blast
qed

subsection \<open>The cooldown of the configuration\<close>

text \<open>
  Claim C5, evaluated at an environment that the loader accepts and that sets the cooldown
  variable: the configuration that \<^verbatim>\<open>loadConfig\<close> returns has no cooldown value,
  \<^verbatim>\<open>computeCooldownUntil\<close> on it throws a \<^verbatim>\<open>RangeError\<close> instead of returning a timestamp, and
  so does the \<^verbatim>\<open>catch\<close> block of an account on a rate-limit error, which then stores no
  cooldown.
\<close>

theorem loadConfig_carries_no_cooldown:
  "loadConfig demo_Number_int demo_JSON_parse demo_environment = Inr demo_loaded_config
   \<and> twitterRateLimitCooldownSeconds demo_loaded_config = None
   \<and> fst (computeCooldownUntil demo_env demo_loaded_config demo_world)
        = Inl (RangeError ''Invalid time value'')
   \<and> fst (account_catch demo_env demo_loaded_config ''alice''
            (fst (getAccountState demo_env ''alice'' demo_world))
            (createAccountSummary ''alice'') demo_rate_limit_error demo_world)
        = Inl (RangeError ''Invalid time value'')
   \<and> account_state (snd (account_catch demo_env demo_loaded_config ''alice''
            (fst (getAccountState demo_env ''alice'' demo_world))
            (createAccountSummary ''alice'') demo_rate_limit_error demo_world))
        = account_state demo_world"
proof -
  have l: "loadConfig demo_Number_int demo_JSON_parse demo_environment = Inr demo_loaded_config"
    by (rule loadConfig_demo)
  have n: "twitterRateLimitCooldownSeconds demo_loaded_config = None"
    by (simp add: demo_loaded_config_def)
  have c: "fst (computeCooldownUntil demo_env demo_loaded_config demo_world)
        = Inl (RangeError ''Invalid time value'')"
    by (simp add: computeCooldownUntil_def toISOString_def Date_now_def n)
  have a: "fst (account_catch demo_env demo_loaded_config ''alice''
            (fst (getAccountState demo_env ''alice'' demo_world))
            (createAccountSummary ''alice'') demo_rate_limit_error demo_world)
        = Inl (RangeError ''Invalid time value'')"
    by (simp add: account_catch_def demo_rate_limit_error_def computeCooldownUntil_def
          toISOString_def Date_now_def n)
  have s: "account_state (snd (account_catch demo_env demo_loaded_config ''alice''
            (fst (getAccountState demo_env ''alice'' demo_world))
            (createAccountSummary ''alice'') demo_rate_limit_error demo_world))
        = account_state demo_world"
    by (simp add: account_catch_def demo_rate_limit_error_def computeCooldownUntil_def
          toISOString_def Date_now_def n)
  from l n c a s show ?thesis by simp
qed

subsection \<open>Oversize media\<close>

text \<open>
  Claim C6. A post holds a media that is not registered; the loop of \<^verbatim>\<open>processTweet\<close>
  reaches it, its download returns a file that is not a photo and is larger than
  \<^verbatim>\<open>maxUploadVideoBytes\<close>, and the media of the post have distinct keys. Then the iteration
  appends to the registry a row for its key with status \<^verbatim>\<open>skipped_oversize\<close> and no message
  id, calls \<^verbatim>\<open>removeFileSafe\<close> on the downloaded file, adds one to \<open>skipped\<close> and leaves the
  send list as it was. When \<^verbatim>\<open>processTweet\<close> ends, that row is the one row of the registry
  for the key, the removal of the file is in the trace, no \<^verbatim>\<open>sendFile\<close> call of the whole
  of \<^verbatim>\<open>processTweet\<close> carries the file, and a returned result counts the media in \<open>skipped\<close>
  and not in \<open>uploaded\<close>.
\<close>

theorem oversize_media_skipped:
  assumes sp: "media tweet = pre @ m # post"
    and dist: "distinct (map (\<lambda>x. makeMediaKey E (tweet_id tweet) (media_url x)) (media tweet))"
    and new: "\<not> isMediaUploaded (makeMediaKey E (tweet_id tweet) (media_url m)) w"
    and pre: "media_loop E C tweet user pre \<lparr>uploaded = 0, skipped = 0, failed = 0\<rparr> [] w
                = ((None, res1, files1), w1)"
    and dl: "withRetry
               (downloadMedia E (makeMediaKey E (tweet_id tweet) (media_url m)) (media_url m)
                  (media_type m) (path_join (downloadTmpDir C) user)) 2 w1 = (Inr d, w2)"
    and notphoto: "mediaType d \<noteq> Photo"
    and big: "fileSizeBytes d > maxUploadVideoBytes C"
  shows "(\<exists>r w4. processMedia E C tweet user m res1 files1 w1
                  = ((r, res1\<lparr>skipped := skipped res1 + 1\<rparr>, files1), w4)
            \<and> media_registry w4 = media_registry w1 @
                 [\<lparr>rec_mediaKey = makeMediaKey E (tweet_id tweet) (media_url m),
                   rec_tweetId = tweet_id tweet, rec_username = user,
                   rec_mediaUrl = media_url m, rec_mediaType = media_type m,
                   rec_uploadedAt = now_at E (tick w2),
                   rec_telegramMessageIds = [], rec_status = SkippedOversize\<rparr>]
            \<and> events w4 = events w2 @ [EvRemoveFile (path d)])
     \<and> rows_of (makeMediaKey E (tweet_id tweet) (media_url m))
          (snd (processTweet E C tweet user w))
        = [\<lparr>rec_mediaKey = makeMediaKey E (tweet_id tweet) (media_url m),
            rec_tweetId = tweet_id tweet, rec_username = user,
            rec_mediaUrl = media_url m, rec_mediaType = media_type m,
            rec_uploadedAt = now_at E (tick w2),
            rec_telegramMessageIds = [], rec_status = SkippedOversize\<rparr>]
     \<and> EvRemoveFile (path d) \<in> set (new_events w (snd (processTweet E C tweet user w)))
     \<and> (\<forall>ps cap. EvSendFile ps cap \<in> set (new_events w (snd (processTweet E C tweet user w)))
           \<longrightarrow> path d \<notin> set ps)
     \<and> (\<forall>r. fst (processTweet E C tweet user w) = Inr r \<longrightarrow>
            skipped res1 + 1 \<le> skipped r
          \<and> uploaded r \<le> int (length (media tweet)) - 1)"
proof -
  let ?kof = "\<lambda>x. makeMediaKey E (tweet_id tweet) (media_url x)"
  let ?key = "?kof m"
  let ?dir = "path_join (downloadTmpDir C) user"
  let ?p = "path d"
  let ?P = "no_send_of ?p"
  let ?init = "\<lparr>uploaded = 0, skipped = 0, failed = 0\<rparr>"
  let ?row = "\<lparr>rec_mediaKey = ?key,
            rec_tweetId = tweet_id tweet, rec_username = user, rec_mediaUrl = media_url m,
            rec_mediaType = media_type m, rec_uploadedAt = now_at E (tick w2),
            rec_telegramMessageIds = [], rec_status = SkippedOversize\<rparr>"
  let ?res1' = "res1\<lparr>skipped := skipped res1 + 1\<rparr>"
  let ?w2' = "w2\<lparr>tick := Suc (tick w2)\<rparr>"
  let ?w3 = "markMediaUploaded ?row ?w2'"
  let ?w4 = "?w3\<lparr>events := events ?w3 @ [EvRemoveFile ?p], tick := Suc (tick ?w3)\<rparr>"
  let ?r = "case rm_at E (Suc (tick w2)) ?p of Inl e \<Rightarrow> Some e | Inr u \<Rightarrow> None"
  have rmP: "\<And>q. ?P (EvRemoveFile q)" by (simp add: no_send_of_def)
  have dlP: "\<And>k u. ?P (EvDownload k u)" by (simp add: no_send_of_def)
  from dist have dist': "distinct (map ?kof pre @ ?kof m # map ?kof post)" by (simp add: sp)
  have kpre: "\<forall>x\<in>set pre. ?kof x \<noteq> ?key"
  proof
    fix x assume "x \<in> set pre"
    then have "?kof x \<in> set (map ?kof pre)" by simp
    with dist' show "?kof x \<noteq> ?key" by auto
  qed
  have kpost: "\<forall>x\<in>set post. ?kof x \<noteq> ?key"
  proof
    fix x assume "x \<in> set post"
    then have "?kof x \<in> set (map ?kof post)" by simp
    with dist' show "?kof x \<noteq> ?key" by auto
  qed
  have rows1: "rows_of ?key w1 = rows_of ?key w"
    using rows_media_loop_other[OF kpre, of C user ?init "[]" w] pre by simp
  with new have new1: "\<not> isMediaUploaded ?key w1" by (simp add: isMediaUploaded_rows)
  have f01: "frame ?P w w1"
    using frame_media_loop[of ?P pre E tweet w C user ?init "[]"] pre rmP dlP by simp
  from media_loop_files[OF pre] obtain new1f where
    p1: "uploaded res1 = 0" "files1 = new1f" "length new1f \<le> length pre"
        "\<forall>f\<in>set new1f. file_ok C user w f \<and> (\<exists>x\<in>set pre. mediaKey f = ?kof x)"
    by auto
  have reg2: "media_registry w2 = media_registry w1"
    using registry_withRetry_downloadMedia[of E ?key "media_url m" "media_type m" ?dir 2 w1] dl
    by simp
  have nofilter: "filter (\<lambda>x. rec_mediaKey x \<noteq> ?key) (media_registry w1) = media_registry w1"
    using new1 by (force simp add: isMediaUploaded_def filter_id_conv)
  have pm: "processMedia E C tweet user m res1 files1 w1 = ((?r, ?res1', files1), ?w4)"
    using new1 dl notphoto big
    by (cases "rm_at E (Suc (tick w2)) ?p")
       (simp_all add: processMedia_def Date_now_def removeFileSafe_def Let_def
          markMediaUploaded_def)
  have reg4: "media_registry ?w4 = media_registry w1 @ [?row]"
    using reg2 nofilter by (simp add: markMediaUploaded_def)
  have ev4: "events ?w4 = events w2 @ [EvRemoveFile ?p]"
    by (simp add: markMediaUploaded_def)
  have "rows_of ?key ?w4 = rows_of ?key ?w3" by (simp add: rows_of_def)
  also have "\<dots> = [?row]"
    using rows_of_markMediaUploaded_same[of ?row ?w2'] by simp
  finally have rows4: "rows_of ?key ?w4 = [?row]" .
  have f12: "frame ?P w1 w2"
    using frame_withRetry_downloadMedia[of w1 E ?key "media_url m" "media_type m" ?dir 2] dl
    by (auto intro: frame_weaken simp add: is_download_def no_send_of_def split: event.splits)
  have f14: "frame ?P w1 ?w4"
    using frame_processMedia[of E tweet m w1 ?P C user res1 files1] pm rmP dlP by simp
  have pd: "?p = path_join ?dir (?key @ extensionByType (media_type m))"
    using withRetry_downloadMedia_Inr[OF dl] by simp
  have ml: "media_loop E C tweet user (media tweet) ?init [] w =
      (case ?r of
         Some e \<Rightarrow> ((Some e, ?res1', files1), ?w4)
       | None \<Rightarrow> media_loop E C tweet user post ?res1' files1 ?w4)"
    using pre pm by (simp add: sp media_loop_append split: option.splits)
  obtain r2 res2 files2 w5 where fin:
    "media_loop E C tweet user (media tweet) ?init [] w = ((r2, res2, files2), w5)"
    by (cases "media_loop E C tweet user (media tweet) ?init [] w") auto
  have rest: "skipped res1 + 1 \<le> skipped res2 \<and> uploaded res2 = 0
       \<and> rows_of ?key w5 = [?row] \<and> frame ?P ?w4 w5
       \<and> (\<exists>new2. files2 = files1 @ new2 \<and> length new2 \<le> length post
             \<and> (\<forall>f\<in>set new2. file_ok C user ?w4 f \<and> (\<exists>x\<in>set post. mediaKey f = ?kof x)))"
  proof (cases ?r)
    case (Some e)
    with ml fin have "res2 = ?res1'" "files2 = files1" "w5 = ?w4" by simp_all
    with p1(1) rows4 show ?thesis by (simp add: frame_refl)
  next
    case None
    with ml fin have post: "media_loop E C tweet user post ?res1' files1 ?w4
                              = ((r2, res2, files2), w5)" by simp
    from media_loop_files[OF post] obtain new2 where
      q: "uploaded res2 = uploaded ?res1'" "skipped ?res1' \<le> skipped res2"
         "files2 = files1 @ new2" "length new2 \<le> length post"
         "\<forall>f\<in>set new2. file_ok C user ?w4 f \<and> (\<exists>x\<in>set post. mediaKey f = ?kof x)"
      by auto
    have r5: "rows_of ?key w5 = rows_of ?key ?w4"
      using rows_media_loop_other[OF kpost, of C user ?res1' files1 ?w4] post by simp
    have f45: "frame ?P ?w4 w5"
      using frame_media_loop[of ?P post E tweet ?w4 C user ?res1' files1] post rmP dlP by simp
    from q p1(1) r5 rows4 f45 show ?thesis by auto
  qed
  then obtain new2 where
    c: "skipped res1 + 1 \<le> skipped res2" "uploaded res2 = 0" "rows_of ?key w5 = [?row]"
       "frame ?P ?w4 w5" "files2 = files1 @ new2" "length new2 \<le> length post"
       "\<forall>f\<in>set new2. file_ok C user ?w4 f \<and> (\<exists>x\<in>set post. mediaKey f = ?kof x)"
    by blast
  have other: "\<forall>f\<in>set files2. mediaKey f \<noteq> ?key
                 \<and> path f = path_join ?dir (mediaKey f @ extensionByType (mediaType f))"
  proof
    fix f assume "f \<in> set files2"
    with c(5) p1(2) have "f \<in> set new1f \<or> f \<in> set new2" by auto
    then show "mediaKey f \<noteq> ?key
                 \<and> path f = path_join ?dir (mediaKey f @ extensionByType (mediaType f))"
    proof
      assume "f \<in> set new1f"
      with p1(4) kpre show ?thesis by (auto simp add: file_ok_def)
    next
      assume "f \<in> set new2"
      with c(7) kpost show ?thesis by (auto simp add: file_ok_def)
    qed
  qed
  then have keysF: "\<forall>f\<in>set files2. mediaKey f \<noteq> ?key" by simp
  have pathsF: "\<forall>f\<in>set files2. path f \<noteq> ?p"
  proof
    fix f assume fin2: "f \<in> set files2"
    show "path f \<noteq> ?p"
    proof
      assume "path f = ?p"
      with other fin2 pd
      have "path_join ?dir (mediaKey f @ extensionByType (mediaType f))
              = path_join ?dir (?key @ extensionByType (media_type m))" by simp
      then have "mediaKey f = ?key" by (rule path_join_key_inj)
      with keysF fin2 show False by simp
    qed
  qed
  have lenF: "int (length files2) \<le> int (length (media tweet)) - 1"
    using c(5,6) p1(2,3) by (simp add: sp)
  note after = processTweet_after_loop[OF fin keysF pathsF]
  let ?pt = "processTweet E C tweet user w"
  from after c(3) have rowsF: "rows_of ?key (snd ?pt) = [?row]" by simp
  from after have f5: "frame ?P w5 (snd ?pt)" by simp
  from c(4) f5 have f4e: "frame ?P ?w4 (snd ?pt)" by (rule frame_trans)
  from f01 f14 have f04: "frame ?P w ?w4" by (rule frame_trans)
  from f04 f4e have f0e: "frame ?P w (snd ?pt)" by (rule frame_trans)
  from frame_new_events[OF f0e]
  have nosend: "\<forall>ps cap. EvSendFile ps cap \<in> set (new_events w (snd ?pt)) \<longrightarrow> ?p \<notin> set ps"
    by (auto simp add: list_all_iff no_send_of_def)
  from f01 f12 have "frame ?P w w2" by (rule frame_trans)
  then obtain e1 where e1: "events w2 = events w @ e1" by (auto simp add: frame_def)
  from f4e obtain e2 where e2: "events (snd ?pt) = events ?w4 @ e2" by (auto simp add: frame_def)
  from e1 e2 ev4 have "events (snd ?pt) = events w @ (e1 @ [EvRemoveFile ?p] @ e2)" by simp
  then have "new_events w (snd ?pt) = e1 @ [EvRemoveFile ?p] @ e2"
    by (simp add: new_events_def)
  then have removed: "EvRemoveFile ?p \<in> set (new_events w (snd ?pt))" by simp
  have counts: "\<forall>r. fst ?pt = Inr r \<longrightarrow>
            skipped res1 + 1 \<le> skipped r \<and> uploaded r \<le> int (length (media tweet)) - 1"
    using after c(1,2) lenF by auto
  have iter: "\<exists>r w4. processMedia E C tweet user m res1 files1 w1
                  = ((r, ?res1', files1), w4)
            \<and> media_registry w4 = media_registry w1 @ [?row]
            \<and> events w4 = events w2 @ [EvRemoveFile ?p]"
    using pm reg4 ev4 by blast
  from iter rowsF removed nosend counts show ?thesis by blast
qed

theorem oversize_media_skipped_witness:
  "media demo_mixed_tweet = [demo_photo] @ demo_video # []
   \<and> distinct (map (\<lambda>x. makeMediaKey demo_env (tweet_id demo_mixed_tweet) (media_url x))
                 (media demo_mixed_tweet))
   \<and> \<not> isMediaUploaded (makeMediaKey demo_env (tweet_id demo_mixed_tweet) (media_url demo_video))
         demo_world
   \<and> fst (media_loop demo_env demo_config_small demo_mixed_tweet ''alice'' [demo_photo]
           \<lparr>uploaded = 0, skipped = 0, failed = 0\<rparr> [] demo_world)
       = (None, \<lparr>uploaded = 0, skipped = 0, failed = 0\<rparr>, [demo_photo_file])
   \<and> fst (withRetry
        (downloadMedia demo_env
           (makeMediaKey demo_env (tweet_id demo_mixed_tweet) (media_url demo_video))
           (media_url demo_video) (media_type demo_video)
           (path_join (downloadTmpDir demo_config_small) ''alice'')) 2
        (snd (media_loop demo_env demo_config_small demo_mixed_tweet ''alice'' [demo_photo]
           \<lparr>uploaded = 0, skipped = 0, failed = 0\<rparr> [] demo_world)))
       = Inr demo_mixed_video_file
   \<and> mediaType demo_mixed_video_file \<noteq> Photo
   \<and> fileSizeBytes demo_mixed_video_file > maxUploadVideoBytes demo_config_small
   \<and> rows_of ''4::https://example.com/v.mp4''
        (snd (processTweet demo_env demo_config_small demo_mixed_tweet ''alice'' demo_world))
       = [\<lparr>rec_mediaKey = ''4::https://example.com/v.mp4'', rec_tweetId = ''4'',
           rec_username = ''alice'', rec_mediaUrl = ''https://example.com/v.mp4'',
           rec_mediaType = Video, rec_uploadedAt = 2000,
           rec_telegramMessageIds = [], rec_status = SkippedOversize\<rparr>]
   \<and> EvRemoveFile ''/tmp/work/alice/4::https://example.com/v.mp4.mp4''
        \<in> set (new_events demo_world
             (snd (processTweet demo_env demo_config_small demo_mixed_tweet ''alice'' demo_world)))
   \<and> \<not> (\<exists>ps cap. EvSendFile ps cap
             \<in> set (new_events demo_world
                  (snd (processTweet demo_env demo_config_small demo_mixed_tweet ''alice''
                     demo_world)))
           \<and> ''/tmp/work/alice/4::https://example.com/v.mp4.mp4'' \<in> set ps)
   \<and> (\<exists>cap. [e \<leftarrow> new_events demo_world
              (snd (processTweet demo_env demo_config_small demo_mixed_tweet ''alice'' demo_world)).
         \<not> is_download e \<and> e \<noteq> EvConnect]
       = [EvRemoveFile ''/tmp/work/alice/4::https://example.com/v.mp4.mp4'',
          EvSendFile [''/tmp/work/alice/4::https://example.com/p.jpg.jpg''] cap,
          EvRemoveFile ''/tmp/work/alice/4::https://example.com/p.jpg.jpg''])
   \<and> fst (processTweet demo_env demo_config_small demo_mixed_tweet ''alice'' demo_world)
       = Inr \<lparr>uploaded = 1, skipped = 1, failed = 0\<rparr>"
proof -
  let ?t = demo_mixed_tweet
  let ?C = demo_config_small
  let ?init = "\<lparr>uploaded = 0, skipped = 0, failed = 0\<rparr>"
  let ?key = "makeMediaKey demo_env (tweet_id ?t) (media_url demo_video)"
  let ?mlp = "media_loop demo_env ?C ?t ''alice'' [demo_photo] ?init [] demo_world"
  let ?dl = "withRetry
        (downloadMedia demo_env ?key (media_url demo_video) (media_type demo_video)
           (path_join (downloadTmpDir ?C) ''alice'')) 2 (snd ?mlp)"
  let ?pt = "processTweet demo_env ?C ?t ''alice'' demo_world"
  note mixed_defs = demo_mixed_tweet_def demo_photo_def demo_video_def demo_config_small_def
    demo_photo_file_def demo_mixed_video_file_def
  have sp: "media ?t = [demo_photo] @ demo_video # []" by (simp add: demo_mixed_tweet_def)
  have dist: "distinct (map (\<lambda>x. makeMediaKey demo_env (tweet_id ?t) (media_url x)) (media ?t))"
    by (simp add: makeMediaKey_def mixed_defs demo_defs)
  have new: "\<not> isMediaUploaded ?key demo_world"
    by (simp add: isMediaUploaded_def demo_world_def)
  have fp: "fst ?mlp = (None, ?init, [demo_photo_file])"
    by (simp add: engine_defs demo_defs mixed_defs)
  then have pre: "?mlp = ((None, ?init, [demo_photo_file]), snd ?mlp)"
    by (metis prod.collapse)
  have fd: "fst ?dl = Inr demo_mixed_video_file"
    by (simp add: engine_defs demo_defs mixed_defs)
  then have dl: "?dl = (Inr demo_mixed_video_file, snd ?dl)" by (metis prod.collapse)
  have tk: "now_at demo_env (tick (snd ?dl)) = 2000"
    by (simp add: engine_defs demo_defs mixed_defs)
  have np: "mediaType demo_mixed_video_file \<noteq> Photo" by (simp add: demo_mixed_video_file_def)
  have big: "fileSizeBytes demo_mixed_video_file > maxUploadVideoBytes ?C"
    by (simp add: demo_mixed_video_file_def demo_config_small_def demo_config_def)
  have k: "?key = ''4::https://example.com/v.mp4''"
    by (simp add: makeMediaKey_def mixed_defs demo_defs)
  have vals: "tweet_id ?t = ''4''" "media_url demo_video = ''https://example.com/v.mp4''"
    "media_type demo_video = Video"
    "path demo_mixed_video_file = ''/tmp/work/alice/4::https://example.com/v.mp4.mp4''"
    by (simp_all add: mixed_defs)
  note inst = oversize_media_skipped[OF sp dist new pre dl np big]
  have rows: "rows_of ''4::https://example.com/v.mp4'' (snd ?pt)
       = [\<lparr>rec_mediaKey = ''4::https://example.com/v.mp4'', rec_tweetId = ''4'',
           rec_username = ''alice'', rec_mediaUrl = ''https://example.com/v.mp4'',
           rec_mediaType = Video, rec_uploadedAt = 2000,
           rec_telegramMessageIds = [], rec_status = SkippedOversize\<rparr>]"
    using inst[THEN conjunct2, THEN conjunct1, unfolded tk, unfolded k, unfolded vals] .
  have rem: "EvRemoveFile ''/tmp/work/alice/4::https://example.com/v.mp4.mp4''
        \<in> set (new_events demo_world (snd ?pt))"
    using inst[THEN conjunct2, THEN conjunct2, THEN conjunct1, unfolded vals] .
  have "\<forall>ps cap. EvSendFile ps cap \<in> set (new_events demo_world (snd ?pt))
           \<longrightarrow> ''/tmp/work/alice/4::https://example.com/v.mp4.mp4'' \<notin> set ps"
    using inst[THEN conjunct2, THEN conjunct2, THEN conjunct2, THEN conjunct1, unfolded vals] .
  then have nosend: "\<not> (\<exists>ps cap. EvSendFile ps cap \<in> set (new_events demo_world (snd ?pt))
           \<and> ''/tmp/work/alice/4::https://example.com/v.mp4.mp4'' \<in> set ps)"
    by blast
  have evs: "\<exists>cap. [e \<leftarrow> new_events demo_world (snd ?pt). \<not> is_download e \<and> e \<noteq> EvConnect]
       = [EvRemoveFile ''/tmp/work/alice/4::https://example.com/v.mp4.mp4'',
          EvSendFile [''/tmp/work/alice/4::https://example.com/p.jpg.jpg''] cap,
          EvRemoveFile ''/tmp/work/alice/4::https://example.com/p.jpg.jpg'']"
    by (simp add: new_events_def is_download_def engine_defs demo_defs mixed_defs)
  have res: "fst ?pt = Inr \<lparr>uploaded = 1, skipped = 1, failed = 0\<rparr>"
    by (simp add: engine_defs demo_defs mixed_defs)
  from sp dist new fp fd np big rows rem nosend evs res show ?thesis by blast
qed

subsection \<open>An account without posts\<close>

text \<open>
  Claim C7 fails on the code: with no post in either direction the backfill cursor still
  moves to the continuation token of the response.
\<close>

theorem empty_fetch_moves_backfill_cursor_counterexample:
  "backfillCursor (fst (getAccountState demo_env_empty ''alice'' demo_world)) = None
   \<and> backfillCursor (fst (getAccountState demo_env_empty ''alice''
        (snd (processAccount demo_env_empty demo_config ''alice'' demo_world))))
       = Some ''cursor-2''"
  by (simp add: processAccount_def getAccountState_def nowIso_def Date_now_def
        createAccountSummary_def account_try_def collectIncrementalTweets_def
        collectBackfillTweets_def listTweetsWithMedia_def select_tweets_Nil truthy_def
        upsertAccountState_def demo_env_empty_def demo_env_def demo_world_def demo_config_def
        Let_def)

text \<open>
  Claim C7, as amended. For an account whose fetches return no post in either direction,
  the cursor write of the success path leaves \<^verbatim>\<open>latest_seen_tweet_id\<close> as it was and sets
  \<^verbatim>\<open>rate_limited_until\<close> to null; \<^verbatim>\<open>backfill_cursor\<close> becomes the continuation token of the
  backfill response and \<^verbatim>\<open>backfill_done\<close> becomes true when that token is empty or absent;
  when backfill was already done, no backfill fetch is made, \<^verbatim>\<open>backfill_cursor\<close> becomes
  null and \<^verbatim>\<open>backfill_done\<close> stays true. The external calls of the account are the fetch of
  the newer direction and, when backfill was not done, the fetch of the older direction from
  the stored cursor, and no other; nothing is uploaded, skipped or failed, and the rows of the
  other accounts stay as they were.
\<close>

theorem empty_fetch_cursor_write:
  assumes gs: "getAccountState E user w = (state, w1)"
      and dn: "Date_now E w1 = (now, w2)"
      and nc: "\<not> (case rateLimitedUntil state of None \<Rightarrow> False | Some ts \<Rightarrow> ts > now)"
      and inc: "listTweetsWithMedia_at E (tick w2)
                  \<lparr>p_username = user, p_cursor = None, p_direction = Newer,
                   p_limitPages = backfillPagesPerRun C\<rparr> = Inr r1"
      and inc0: "tweets r1 = []"
      and bf: "\<not> backfillDone state \<Longrightarrow>
                 listTweetsWithMedia_at E (Suc (tick w2))
                  \<lparr>p_username = user, p_cursor = backfillCursor state, p_direction = Older,
                   p_limitPages = backfillPagesPerRun C\<rparr> = Inr r2 \<and> tweets r2 = []"
  shows "\<exists>s w'. processAccount E C user w = (Inr s, w')
     \<and> latestSeenTweetId (fst (getAccountState E user w')) = latestSeenTweetId state
     \<and> rateLimitedUntil (fst (getAccountState E user w')) = None
     \<and> backfillCursor (fst (getAccountState E user w'))
          = (if backfillDone state then None else nextCursor r2)
     \<and> backfillDone (fst (getAccountState E user w'))
          = (backfillDone state \<or> \<not> truthy (nextCursor r2))
     \<and> sum_uploaded s = 0 \<and> sum_skipped s = 0 \<and> sum_failed s = 0
     \<and> (\<forall>u. u \<noteq> user \<longrightarrow> account_state w' u = account_state w u)
     \<and> new_events w w' =
          (if backfillDone state
           then [EvListTweets \<lparr>p_username = user, p_cursor = None, p_direction = Newer,
                                p_limitPages = backfillPagesPerRun C\<rparr>]
           else [EvListTweets \<lparr>p_username = user, p_cursor = None, p_direction = Newer,
                                p_limitPages = backfillPagesPerRun C\<rparr>,
                 EvListTweets \<lparr>p_username = user, p_cursor = backfillCursor state,
                                p_direction = Older,
                                p_limitPages = backfillPagesPerRun C\<rparr>])"
proof -
  have acc2: "account_state w2 = account_state w"
    using gs dn by (auto simp add: getAccountState_def nowIso_def Date_now_def
                      split: option.splits)
  have ev2: "events w2 = events w"
    using gs dn by (auto simp add: getAccountState_def nowIso_def Date_now_def
                      split: option.splits)
  show ?thesis
  proof (cases "backfillDone state")
    case True
    with gs dn nc inc inc0 acc2 ev2 show ?thesis
      by (simp add: processAccount_def account_try_def collectIncrementalTweets_def
            listTweetsWithMedia_def select_tweets_Nil createAccountSummary_def
            upsertAccountState_row upsertAccountState_events getAccountState_def
            new_events_def Let_def)
  next
    case False
    from bf[OF False] have b: "listTweetsWithMedia_at E (Suc (tick w2))
                  \<lparr>p_username = user, p_cursor = backfillCursor state, p_direction = Older,
                   p_limitPages = backfillPagesPerRun C\<rparr> = Inr r2" "tweets r2 = []"
      by auto
    with False gs dn nc inc inc0 acc2 ev2 show ?thesis
      by (simp add: processAccount_def account_try_def collectIncrementalTweets_def
            collectBackfillTweets_def listTweetsWithMedia_def select_tweets_Nil
            createAccountSummary_def upsertAccountState_row upsertAccountState_events
            getAccountState_def new_events_def Let_def)
  qed
qed

theorem empty_fetch_cursor_write_witness:
  "getAccountState demo_env_empty ''alice'' demo_world_cursor
     = (demo_state_cursor, demo_world_cursor)
   \<and> listTweetsWithMedia_at demo_env_empty 4
        \<lparr>p_username = ''alice'', p_cursor = None, p_direction = Newer,
         p_limitPages = backfillPagesPerRun demo_config\<rparr>
       = Inr \<lparr>tweets = [], nextCursor = None\<rparr>
   \<and> backfillDone demo_state_cursor = False
   \<and> listTweetsWithMedia_at demo_env_empty 5
        \<lparr>p_username = ''alice'', p_cursor = Some ''cursor-1'', p_direction = Older,
         p_limitPages = backfillPagesPerRun demo_config\<rparr>
       = Inr \<lparr>tweets = [], nextCursor = Some ''cursor-2''\<rparr>
   \<and> latestSeenTweetId (fst (getAccountState demo_env_empty ''alice''
        (snd (processAccount demo_env_empty demo_config ''alice'' demo_world_cursor))))
       = Some ''5''
   \<and> rateLimitedUntil (fst (getAccountState demo_env_empty ''alice'' demo_world_cursor))
       = Some 1000
   \<and> rateLimitedUntil (fst (getAccountState demo_env_empty ''alice''
        (snd (processAccount demo_env_empty demo_config ''alice'' demo_world_cursor)))) = None
   \<and> backfillCursor (fst (getAccountState demo_env_empty ''alice''
        (snd (processAccount demo_env_empty demo_config ''alice'' demo_world_cursor))))
       = Some ''cursor-2''
   \<and> backfillDone (fst (getAccountState demo_env_empty ''alice''
        (snd (processAccount demo_env_empty demo_config ''alice'' demo_world_cursor))))
       = False
   \<and> new_events demo_world_cursor
        (snd (processAccount demo_env_empty demo_config ''alice'' demo_world_cursor))
       = [EvListTweets \<lparr>p_username = ''alice'', p_cursor = None, p_direction = Newer,
                        p_limitPages = 1\<rparr>,
          EvListTweets \<lparr>p_username = ''alice'', p_cursor = Some ''cursor-1'',
                        p_direction = Older, p_limitPages = 1\<rparr>]
   \<and> getAccountState demo_env_empty ''alice'' demo_world_done
     = (demo_state_done, demo_world_done)
   \<and> backfillDone demo_state_done
   \<and> latestSeenTweetId (fst (getAccountState demo_env_empty ''alice''
        (snd (processAccount demo_env_empty demo_config ''alice'' demo_world_done))))
       = Some ''5''
   \<and> rateLimitedUntil (fst (getAccountState demo_env_empty ''alice''
        (snd (processAccount demo_env_empty demo_config ''alice'' demo_world_done)))) = None
   \<and> backfillCursor (fst (getAccountState demo_env_empty ''alice''
        (snd (processAccount demo_env_empty demo_config ''alice'' demo_world_done)))) = None
   \<and> backfillDone (fst (getAccountState demo_env_empty ''alice''
        (snd (processAccount demo_env_empty demo_config ''alice'' demo_world_done))))
   \<and> new_events demo_world_done
        (snd (processAccount demo_env_empty demo_config ''alice'' demo_world_done))
       = [EvListTweets \<lparr>p_username = ''alice'', p_cursor = None, p_direction = Newer,
                        p_limitPages = 1\<rparr>]"
proof -
  let ?E = demo_env_empty
  let ?r1 = "\<lparr>tweets = [], nextCursor = None\<rparr> :: ListTweetsWithMediaResult"
  let ?r2 = "\<lparr>tweets = [], nextCursor = Some ''cursor-2''\<rparr> :: ListTweetsWithMediaResult"
  have pg: "backfillPagesPerRun demo_config = 1" by (simp add: demo_config_def)
  have inc: "listTweetsWithMedia_at ?E n
        \<lparr>p_username = ''alice'', p_cursor = None, p_direction = Newer,
         p_limitPages = backfillPagesPerRun demo_config\<rparr> = Inr ?r1" for n
    by (simp add: demo_env_empty_def)
  have inc0: "tweets ?r1 = []" by simp
  have old: "listTweetsWithMedia_at ?E n
        \<lparr>p_username = ''alice'', p_cursor = c, p_direction = Older,
         p_limitPages = backfillPagesPerRun demo_config\<rparr> = Inr ?r2" for n c
    by (simp add: demo_env_empty_def)
  let ?W = demo_world_cursor
  let ?W2 = "demo_world_cursor\<lparr>tick := 4\<rparr>"
  let ?st = demo_state_cursor
  have gs: "getAccountState ?E ''alice'' ?W = (?st, ?W)"
    by (simp add: getAccountState_def demo_world_cursor_def demo_world_def demo_state_cursor_def)
  have dn: "Date_now ?E ?W = (3000, ?W2)"
    by (simp add: Date_now_def demo_env_empty_def demo_env_def demo_world_cursor_def
          demo_world_def)
  have nc: "\<not> (case rateLimitedUntil ?st of None \<Rightarrow> False | Some ts \<Rightarrow> ts > 3000)"
    by (simp add: demo_state_cursor_def)
  have fld: "backfillDone ?st = False" "latestSeenTweetId ?st = Some ''5''"
    "backfillCursor ?st = Some ''cursor-1''" "rateLimitedUntil ?st = Some 1000"
    by (simp_all add: demo_state_cursor_def)
  have tk: "tick ?W2 = 4" by simp
  have bf: "\<not> backfillDone ?st \<Longrightarrow>
      listTweetsWithMedia_at ?E (Suc (tick ?W2))
        \<lparr>p_username = ''alice'', p_cursor = backfillCursor ?st,
         p_direction = Older, p_limitPages = backfillPagesPerRun demo_config\<rparr> = Inr ?r2
      \<and> tweets ?r2 = []"
    using old by simp
  from empty_fetch_cursor_write[OF gs dn nc inc inc0 bf]
  obtain s w' where
    r: "processAccount ?E demo_config ''alice'' ?W = (Inr s, w')"
       "latestSeenTweetId (fst (getAccountState ?E ''alice'' w')) = latestSeenTweetId ?st"
       "rateLimitedUntil (fst (getAccountState ?E ''alice'' w')) = None"
       "backfillCursor (fst (getAccountState ?E ''alice'' w'))
          = (if backfillDone ?st then None else nextCursor ?r2)"
       "backfillDone (fst (getAccountState ?E ''alice'' w'))
          = (backfillDone ?st \<or> \<not> truthy (nextCursor ?r2))"
       "new_events ?W w' =
          (if backfillDone ?st
           then [EvListTweets \<lparr>p_username = ''alice'', p_cursor = None, p_direction = Newer,
                                p_limitPages = backfillPagesPerRun demo_config\<rparr>]
           else [EvListTweets \<lparr>p_username = ''alice'', p_cursor = None, p_direction = Newer,
                                p_limitPages = backfillPagesPerRun demo_config\<rparr>,
                 EvListTweets \<lparr>p_username = ''alice'', p_cursor = backfillCursor ?st,
                                p_direction = Older,
                                p_limitPages = backfillPagesPerRun demo_config\<rparr>])"
    by blast
  from r(1) have w': "w' = snd (processAccount ?E demo_config ''alice'' ?W)" by simp
  from r(2-6) w' fld pg
  have c1: "latestSeenTweetId (fst (getAccountState ?E ''alice''
        (snd (processAccount ?E demo_config ''alice'' ?W)))) = Some ''5''"
   and c2: "rateLimitedUntil (fst (getAccountState ?E ''alice''
        (snd (processAccount ?E demo_config ''alice'' ?W)))) = None"
   and c3: "backfillCursor (fst (getAccountState ?E ''alice''
        (snd (processAccount ?E demo_config ''alice'' ?W)))) = Some ''cursor-2''"
   and c4: "backfillDone (fst (getAccountState ?E ''alice''
        (snd (processAccount ?E demo_config ''alice'' ?W)))) = False"
   and c5: "new_events ?W (snd (processAccount ?E demo_config ''alice'' ?W))
       = [EvListTweets \<lparr>p_username = ''alice'', p_cursor = None, p_direction = Newer,
                        p_limitPages = 1\<rparr>,
          EvListTweets \<lparr>p_username = ''alice'', p_cursor = Some ''cursor-1'',
                        p_direction = Older, p_limitPages = 1\<rparr>]"
    by (simp_all add: truthy_def)
  from gs fld have c0: "rateLimitedUntil (fst (getAccountState ?E ''alice'' ?W)) = Some 1000"
    by simp
  let ?D = demo_world_done
  let ?D2 = "demo_world_done\<lparr>tick := 4\<rparr>"
  let ?sd = demo_state_done
  have gsd: "getAccountState ?E ''alice'' ?D = (?sd, ?D)"
    by (simp add: getAccountState_def demo_world_done_def demo_world_def demo_state_done_def)
  have dnd: "Date_now ?E ?D = (3000, ?D2)"
    by (simp add: Date_now_def demo_env_empty_def demo_env_def demo_world_done_def
          demo_world_def)
  have ncd: "\<not> (case rateLimitedUntil ?sd of None \<Rightarrow> False | Some ts \<Rightarrow> ts > 3000)"
    by (simp add: demo_state_done_def)
  have fldd: "backfillDone ?sd" "latestSeenTweetId ?sd = Some ''5''"
    by (simp_all add: demo_state_done_def)
  have bfd: "\<not> backfillDone ?sd \<Longrightarrow>
      listTweetsWithMedia_at ?E (Suc (tick ?D2))
        \<lparr>p_username = ''alice'', p_cursor = backfillCursor ?sd,
         p_direction = Older, p_limitPages = backfillPagesPerRun demo_config\<rparr> = Inr ?r2
      \<and> tweets ?r2 = []"
    using old by simp
  from empty_fetch_cursor_write[OF gsd dnd ncd inc inc0 bfd]
  obtain sd wd where
    rd: "processAccount ?E demo_config ''alice'' ?D = (Inr sd, wd)"
       "latestSeenTweetId (fst (getAccountState ?E ''alice'' wd)) = latestSeenTweetId ?sd"
       "rateLimitedUntil (fst (getAccountState ?E ''alice'' wd)) = None"
       "backfillCursor (fst (getAccountState ?E ''alice'' wd))
          = (if backfillDone ?sd then None else nextCursor ?r2)"
       "backfillDone (fst (getAccountState ?E ''alice'' wd))
          = (backfillDone ?sd \<or> \<not> truthy (nextCursor ?r2))"
       "new_events ?D wd =
          (if backfillDone ?sd
           then [EvListTweets \<lparr>p_username = ''alice'', p_cursor = None, p_direction = Newer,
                                p_limitPages = backfillPagesPerRun demo_config\<rparr>]
           else [EvListTweets \<lparr>p_username = ''alice'', p_cursor = None, p_direction = Newer,
                                p_limitPages = backfillPagesPerRun demo_config\<rparr>,
                 EvListTweets \<lparr>p_username = ''alice'', p_cursor = backfillCursor ?sd,
                                p_direction = Older,
                                p_limitPages = backfillPagesPerRun demo_config\<rparr>])"
    by blast
  from rd(1) have wd: "wd = snd (processAccount ?E demo_config ''alice'' ?D)" by simp
  from rd(2-6) wd fldd pg
  have d1: "latestSeenTweetId (fst (getAccountState ?E ''alice''
        (snd (processAccount ?E demo_config ''alice'' ?D)))) = Some ''5''"
   and d2: "rateLimitedUntil (fst (getAccountState ?E ''alice''
        (snd (processAccount ?E demo_config ''alice'' ?D)))) = None"
   and d3: "backfillCursor (fst (getAccountState ?E ''alice''
        (snd (processAccount ?E demo_config ''alice'' ?D)))) = None"
   and d4: "backfillDone (fst (getAccountState ?E ''alice''
        (snd (processAccount ?E demo_config ''alice'' ?D))))"
   and d5: "new_events ?D (snd (processAccount ?E demo_config ''alice'' ?D))
       = [EvListTweets \<lparr>p_username = ''alice'', p_cursor = None, p_direction = Newer,
                        p_limitPages = 1\<rparr>]"
    by simp_all
  from gs inc[of 4] fld(1) old[of 5 "Some ''cursor-1''"] c1 c0 c2 c3 c4 c5 gsd fldd(1) d1 d2 d3 d4 d5
  show ?thesis by blast
qed

subsection \<open>The scheduler tick\<close>

text \<open>
  Claim C8. A tick invokes the engine exactly when no run is in flight, the time of day is
  at or past the daily time, and the day of the last completed run is not today; otherwise
  it changes nothing. While the run is in flight no tick invokes the engine. When the run
  returns, \<^verbatim>\<open>lastRunDateKey\<close> becomes today's key exactly when the run was not skipped by
  the lock, and \<^verbatim>\<open>isRunning\<close> is cleared; after a completed run no tick of the same day
  invokes the engine again, and after a run skipped by the lock a due tick of the same day
  does.
\<close>

theorem scheduler_tick_contract:
  "(fst (executeDueRun_begin scheduler now st)
      \<longleftrightarrow> \<not> isRunning st \<and> dueToday scheduler now \<and> lastRunDateKey st \<noteq> dateKey now)
   \<and> (0 \<le> minute now \<and> minute now < 60
        \<and> 0 \<le> dailyAtMinute scheduler \<and> dailyAtMinute scheduler < 60
       \<longrightarrow> (dueToday scheduler now
             \<longleftrightarrow> dailyAtHour scheduler * 60 + dailyAtMinute scheduler
                   \<le> hour now * 60 + minute now))
   \<and> (\<not> fst (executeDueRun_begin scheduler now st)
       \<longrightarrow> executeDueRun scheduler now engine (st, w) = (st, w))
   \<and> (fst (executeDueRun_begin scheduler now st)
       \<longrightarrow> executeDueRun scheduler now engine (st, w)
             = (executeDueRun_end now (fst (engine w)) (st\<lparr>isRunning := True\<rparr>), snd (engine w))
           \<and> snd (executeDueRun_begin scheduler now st) = st\<lparr>isRunning := True\<rparr>
           \<and> (\<forall>now'. \<not> fst (executeDueRun_begin scheduler now'
                                (snd (executeDueRun_begin scheduler now st))))
           \<and> (\<forall>result.
                 (lastRunDateKey (executeDueRun_end now (Inr result) (st\<lparr>isRunning := True\<rparr>))
                    = dateKey now \<longleftrightarrow> \<not> skippedByLock result)
               \<and> \<not> isRunning (executeDueRun_end now (Inr result) (st\<lparr>isRunning := True\<rparr>)))
           \<and> (\<forall>result now'. \<not> skippedByLock result \<and> dateKey now' = dateKey now
                 \<longrightarrow> \<not> fst (executeDueRun_begin scheduler now'
                             (executeDueRun_end now (Inr result) (st\<lparr>isRunning := True\<rparr>))))
           \<and> (\<forall>result now'. skippedByLock result \<and> dateKey now' = dateKey now
                   \<and> dueToday scheduler now'
                 \<longrightarrow> fst (executeDueRun_begin scheduler now'
                           (executeDueRun_end now (Inr result) (st\<lparr>isRunning := True\<rparr>))))
           \<and> (\<forall>e. executeDueRun_end now (Inl e) (st\<lparr>isRunning := True\<rparr>) = st))"
proof (intro conjI)
  show "fst (executeDueRun_begin scheduler now st)
      \<longleftrightarrow> \<not> isRunning st \<and> dueToday scheduler now \<and> lastRunDateKey st \<noteq> dateKey now"
    by (simp add: executeDueRun_begin_def)
next
  show "0 \<le> minute now \<and> minute now < 60
        \<and> 0 \<le> dailyAtMinute scheduler \<and> dailyAtMinute scheduler < 60
       \<longrightarrow> (dueToday scheduler now
             \<longleftrightarrow> dailyAtHour scheduler * 60 + dailyAtMinute scheduler
                   \<le> hour now * 60 + minute now)"
    unfolding dueToday_def by auto
next
  show "\<not> fst (executeDueRun_begin scheduler now st)
       \<longrightarrow> executeDueRun scheduler now engine (st, w) = (st, w)"
    by (auto simp add: executeDueRun_def executeDueRun_begin_def)
next
  show "fst (executeDueRun_begin scheduler now st)
       \<longrightarrow> executeDueRun scheduler now engine (st, w)
             = (executeDueRun_end now (fst (engine w)) (st\<lparr>isRunning := True\<rparr>), snd (engine w))
           \<and> snd (executeDueRun_begin scheduler now st) = st\<lparr>isRunning := True\<rparr>
           \<and> (\<forall>now'. \<not> fst (executeDueRun_begin scheduler now'
                                (snd (executeDueRun_begin scheduler now st))))
           \<and> (\<forall>result.
                 (lastRunDateKey (executeDueRun_end now (Inr result) (st\<lparr>isRunning := True\<rparr>))
                    = dateKey now \<longleftrightarrow> \<not> skippedByLock result)
               \<and> \<not> isRunning (executeDueRun_end now (Inr result) (st\<lparr>isRunning := True\<rparr>)))
           \<and> (\<forall>result now'. \<not> skippedByLock result \<and> dateKey now' = dateKey now
                 \<longrightarrow> \<not> fst (executeDueRun_begin scheduler now'
                             (executeDueRun_end now (Inr result) (st\<lparr>isRunning := True\<rparr>))))
           \<and> (\<forall>result now'. skippedByLock result \<and> dateKey now' = dateKey now
                   \<and> dueToday scheduler now'
                 \<longrightarrow> fst (executeDueRun_begin scheduler now'
                           (executeDueRun_end now (Inr result) (st\<lparr>isRunning := True\<rparr>))))
           \<and> (\<forall>e. executeDueRun_end now (Inl e) (st\<lparr>isRunning := True\<rparr>) = st)"
  proof
    assume b: "fst (executeDueRun_begin scheduler now st)"
    then have c: "\<not> isRunning st" "dueToday scheduler now" "lastRunDateKey st \<noteq> dateKey now"
      by (auto simp add: executeDueRun_begin_def split: if_splits)
    then have sb: "executeDueRun_begin scheduler now st = (True, st\<lparr>isRunning := True\<rparr>)"
      by (simp add: executeDueRun_begin_def)
    have 1: "executeDueRun scheduler now engine (st, w)
             = (executeDueRun_end now (fst (engine w)) (st\<lparr>isRunning := True\<rparr>), snd (engine w))"
      using sb by (simp add: executeDueRun_def split: prod.splits)
    have 2: "snd (executeDueRun_begin scheduler now st) = st\<lparr>isRunning := True\<rparr>"
      using sb by simp
    have 3: "\<forall>now'. \<not> fst (executeDueRun_begin scheduler now'
                                (snd (executeDueRun_begin scheduler now st)))"
      using sb by (simp add: executeDueRun_begin_def)
    have 4: "\<forall>result.
                 (lastRunDateKey (executeDueRun_end now (Inr result) (st\<lparr>isRunning := True\<rparr>))
                    = dateKey now \<longleftrightarrow> \<not> skippedByLock result)
               \<and> \<not> isRunning (executeDueRun_end now (Inr result) (st\<lparr>isRunning := True\<rparr>))"
      using c by (simp add: executeDueRun_end_def)
    have 5: "\<forall>result now'. \<not> skippedByLock result \<and> dateKey now' = dateKey now
                 \<longrightarrow> \<not> fst (executeDueRun_begin scheduler now'
                             (executeDueRun_end now (Inr result) (st\<lparr>isRunning := True\<rparr>)))"
      by (simp add: executeDueRun_end_def executeDueRun_begin_def)
    have 6: "\<forall>result now'. skippedByLock result \<and> dateKey now' = dateKey now
                   \<and> dueToday scheduler now'
                 \<longrightarrow> fst (executeDueRun_begin scheduler now'
                           (executeDueRun_end now (Inr result) (st\<lparr>isRunning := True\<rparr>)))"
      using c by (simp add: executeDueRun_end_def executeDueRun_begin_def)
    have 7: "\<forall>e. executeDueRun_end now (Inl e) (st\<lparr>isRunning := True\<rparr>) = st"
      using c by (simp add: executeDueRun_end_def)
    from 1 2 3 4 5 6 7 show "executeDueRun scheduler now engine (st, w)
             = (executeDueRun_end now (fst (engine w)) (st\<lparr>isRunning := True\<rparr>), snd (engine w))
           \<and> snd (executeDueRun_begin scheduler now st) = st\<lparr>isRunning := True\<rparr>
           \<and> (\<forall>now'. \<not> fst (executeDueRun_begin scheduler now'
                                (snd (executeDueRun_begin scheduler now st))))
           \<and> (\<forall>result.
                 (lastRunDateKey (executeDueRun_end now (Inr result) (st\<lparr>isRunning := True\<rparr>))
                    = dateKey now \<longleftrightarrow> \<not> skippedByLock result)
               \<and> \<not> isRunning (executeDueRun_end now (Inr result) (st\<lparr>isRunning := True\<rparr>)))
           \<and> (\<forall>result now'. \<not> skippedByLock result \<and> dateKey now' = dateKey now
                 \<longrightarrow> \<not> fst (executeDueRun_begin scheduler now'
                             (executeDueRun_end now (Inr result) (st\<lparr>isRunning := True\<rparr>))))
           \<and> (\<forall>result now'. skippedByLock result \<and> dateKey now' = dateKey now
                   \<and> dueToday scheduler now'
                 \<longrightarrow> fst (executeDueRun_begin scheduler now'
                           (executeDueRun_end now (Inr result) (st\<lparr>isRunning := True\<rparr>))))
           \<and> (\<forall>e. executeDueRun_end now (Inl e) (st\<lparr>isRunning := True\<rparr>) = st)"
      by (intro conjI)
  qed
qed

theorem scheduler_tick_contract_witness:
  "fst (executeDueRun_begin demo_scheduler demo_now demo_scheduler_state)
   \<and> 0 \<le> minute demo_now \<and> minute demo_now < 60
   \<and> 0 \<le> dailyAtMinute demo_scheduler \<and> dailyAtMinute demo_scheduler < 60
   \<and> dueToday demo_scheduler demo_now
   \<and> \<not> skippedByLock (projr (fst (runSyncOnce demo_env (Inr demo_config) demo_world)))
   \<and> lastRunDateKey (fst (executeDueRun demo_scheduler demo_now
         (runSyncOnce demo_env (Inr demo_config)) (demo_scheduler_state, demo_world)))
       = ''2024-01-02''
   \<and> \<not> fst (executeDueRun_begin demo_scheduler demo_now
         (fst (executeDueRun demo_scheduler demo_now
               (runSyncOnce demo_env (Inr demo_config)) (demo_scheduler_state, demo_world))))
   \<and> \<not> fst (executeDueRun_begin demo_scheduler demo_now_early demo_scheduler_state)
   \<and> executeDueRun demo_scheduler demo_now_early (runSyncOnce demo_env (Inr demo_config))
        (demo_scheduler_state, demo_world) = (demo_scheduler_state, demo_world)"
proof -
  let ?engine = "runSyncOnce demo_env (Inr demo_config)"
  let ?st1 = "demo_scheduler_state\<lparr>isRunning := True\<rparr>"
  have b: "fst (executeDueRun_begin demo_scheduler demo_now demo_scheduler_state)"
    by (simp add: executeDueRun_begin_def dueToday_def demo_scheduler_def demo_now_def
          demo_scheduler_state_def)
  have m: "0 \<le> minute demo_now \<and> minute demo_now < 60
      \<and> 0 \<le> dailyAtMinute demo_scheduler \<and> dailyAtMinute demo_scheduler < 60"
    by (simp add: demo_now_def demo_scheduler_def)
  have ar: "dailyAtHour demo_scheduler * 60 + dailyAtMinute demo_scheduler
              \<le> hour demo_now * 60 + minute demo_now"
    by (simp add: demo_now_def demo_scheduler_def)
  have "skippedByLock (projr (fst (?engine demo_world))) = False
        \<and> isl (fst (?engine demo_world)) = False"
    by (simp add: runSyncOnce_def disconnect_def run_def acquireJobLock_def releaseJobLock_def
          engine_defs report_defs demo_defs)
  then obtain result where res: "fst (?engine demo_world) = Inr result" "\<not> skippedByLock result"
    by (cases "fst (?engine demo_world)") auto
  then have ns: "\<not> skippedByLock (projr (fst (?engine demo_world)))" by simp
  note T = scheduler_tick_contract[of demo_scheduler demo_now demo_scheduler_state
             ?engine demo_world]
  from T m ar have due: "dueToday demo_scheduler demo_now" by blast
  from T b have run: "executeDueRun demo_scheduler demo_now ?engine (demo_scheduler_state, demo_world)
      = (executeDueRun_end demo_now (fst (?engine demo_world)) ?st1, snd (?engine demo_world))"
    by blast
  from T b have key: "lastRunDateKey (executeDueRun_end demo_now (Inr result) ?st1)
                    = dateKey demo_now \<longleftrightarrow> \<not> skippedByLock result"
    by blast
  from T b res(2) have again: "\<not> fst (executeDueRun_begin demo_scheduler demo_now
                             (executeDueRun_end demo_now (Inr result) ?st1))"
    by blast
  from run res key have c1: "lastRunDateKey (fst (executeDueRun demo_scheduler demo_now ?engine
         (demo_scheduler_state, demo_world))) = ''2024-01-02''"
    by (simp add: demo_now_def)
  from run res again have c2: "\<not> fst (executeDueRun_begin demo_scheduler demo_now
         (fst (executeDueRun demo_scheduler demo_now ?engine (demo_scheduler_state, demo_world))))"
    by simp
  have e: "\<not> fst (executeDueRun_begin demo_scheduler demo_now_early demo_scheduler_state)"
    by (simp add: executeDueRun_begin_def dueToday_def demo_scheduler_def demo_now_early_def
          demo_scheduler_state_def)
  from scheduler_tick_contract[of demo_scheduler demo_now_early demo_scheduler_state
             ?engine demo_world] e
  have c3: "executeDueRun demo_scheduler demo_now_early ?engine
        (demo_scheduler_state, demo_world) = (demo_scheduler_state, demo_world)"
    by blast
  from b m due ns c1 c2 e c3 show ?thesis by blast
qed

subsection \<open>The rate-limit classifier\<close>

text \<open>
  Claim C9 fails on the classifier that the pipeline imports: the message of this generic
  error matches \<^verbatim>\<open>/\(429\)|rate limit/i\<close>, the classifier answers false, and the
  \<^verbatim>\<open>catch\<close> block sends the failure report and writes no cooldown.
\<close>

theorem generic_429_not_rate_limit_counterexample:
  "rate_limit_pattern (message demo_429_error)
   \<and> \<not> isTwitterRateLimitError demo_429_error
   \<and> fst (account_catch demo_env demo_config ''alice''
            (fst (getAccountState demo_env ''alice'' demo_world))
            (createAccountSummary ''alice'') demo_429_error demo_world)
       = Inr ((createAccountSummary ''alice'')\<lparr>sum_failed := 1, sum_backfillDone := False\<rparr>)
   \<and> events (snd (account_catch demo_env demo_config ''alice''
            (fst (getAccountState demo_env ''alice'' demo_world))
            (createAccountSummary ''alice'') demo_429_error demo_world))
       = [EvConnect, EvSendText (formatFailureReport demo_429_error ''account:alice'')]
   \<and> account_state (snd (account_catch demo_env demo_config ''alice''
            (fst (getAccountState demo_env ''alice'' demo_world))
            (createAccountSummary ''alice'') demo_429_error demo_world)) ''alice'' = None"
  by (simp add: rate_limit_pattern_def demo_429_error_def account_catch_def
        sendTextMessage_def ensureConnected_def getAccountState_def nowIso_def Date_now_def
        demo_env_def demo_world_def createAccountSummary_def Let_def)

text \<open>
  Claim C9, as amended. The classifier that the engine imports accepts the typed variant and
  nothing else: it answers true exactly on a \<^verbatim>\<open>TwitterRateLimitError\<close>, whatever the message of
  another error says. An error of another kind, also one whose message matches
  \<^verbatim>\<open>/\(429\)|rate limit/i\<close>, takes the failure-report path of the \<^verbatim>\<open>catch\<close> block: the report
  is handed to \<^verbatim>\<open>sendTextMessage\<close>, no row of the account table is written, and when the send
  returns the report is in the trace and the summary shows \<open>failed\<close> 1 with its cooldown
  fields as they were.
\<close>

theorem classifier_accepts_typed_variant_only:
  "(isTwitterRateLimitError e \<longleftrightarrow> (\<exists>m hosts. e = TwitterRateLimitError m hosts))
   \<and> ((\<forall>m hosts. e \<noteq> TwitterRateLimitError m hosts) \<longrightarrow>
        account_catch E C user state summary e w =
          (case sendTextMessage E (formatFailureReport e (''account:'' @ user)) w of
             (Inl e1, w1) \<Rightarrow> (Inl e1, w1)
           | (Inr u, w1) \<Rightarrow>
               (Inr (summary\<lparr>sum_failed := 1, sum_backfillDone := backfillDone state\<rparr>), w1))
      \<and> account_state (snd (account_catch E C user state summary e w)) = account_state w
      \<and> (\<forall>s' w'. account_catch E C user state summary e w = (Inr s', w') \<longrightarrow>
             sum_failed s' = 1
           \<and> cooldownActive s' = cooldownActive summary
           \<and> cooldownUntil s' = cooldownUntil summary
           \<and> EvSendText (formatFailureReport e (''account:'' @ user))
                \<in> set (new_events w w')))"
proof (intro conjI impI)
  show "isTwitterRateLimitError e \<longleftrightarrow> (\<exists>m hosts. e = TwitterRateLimitError m hosts)"
    by (cases e) simp_all
next
  assume n: "\<forall>m hosts. e \<noteq> TwitterRateLimitError m hosts"
  then show "account_catch E C user state summary e w =
          (case sendTextMessage E (formatFailureReport e (''account:'' @ user)) w of
             (Inl e1, w1) \<Rightarrow> (Inl e1, w1)
           | (Inr u, w1) \<Rightarrow>
               (Inr (summary\<lparr>sum_failed := 1, sum_backfillDone := backfillDone state\<rparr>), w1))"
    by (cases e) (simp_all add: account_catch_def)
next
  assume n: "\<forall>m hosts. e \<noteq> TwitterRateLimitError m hosts"
  let ?report = "formatFailureReport e (''account:'' @ user)"
  from n have nr: "\<not> isTwitterRateLimitError e" by (cases e) simp_all
  have "snd (account_catch E C user state summary e w) = snd (sendTextMessage E ?report w)"
    using nr by (auto simp add: account_catch_def split: prod.splits sum.splits)
  moreover have "frame (\<lambda>e. True) w (snd (sendTextMessage E ?report w))"
    by (rule frame_sendTextMessage) simp_all
  ultimately show "account_state (snd (account_catch E C user state summary e w)) = account_state w"
    by (simp add: frame_def)
next
  assume n: "\<forall>m hosts. e \<noteq> TwitterRateLimitError m hosts"
  let ?report = "formatFailureReport e (''account:'' @ user)"
  from n have nr: "\<not> isTwitterRateLimitError e" by (cases e) simp_all
  show "\<forall>s' w'. account_catch E C user state summary e w = (Inr s', w') \<longrightarrow>
             sum_failed s' = 1
           \<and> cooldownActive s' = cooldownActive summary
           \<and> cooldownUntil s' = cooldownUntil summary
           \<and> EvSendText ?report \<in> set (new_events w w')"
  proof (intro allI impI)
    fix s' w' assume ac: "account_catch E C user state summary e w = (Inr s', w')"
    with nr have st: "sendTextMessage E ?report w = (Inr (), w')"
      and s': "s' = summary\<lparr>sum_failed := 1, sum_backfillDone := backfillDone state\<rparr>"
      by (auto simp add: account_catch_def split: prod.splits sum.splits)
    from sendTextMessage_Inr[OF st] obtain evs where
      "events w' = events w @ evs @ [EvSendText ?report]" by auto
    then have "EvSendText ?report \<in> set (new_events w w')" by (simp add: new_events_def)
    with s' show "sum_failed s' = 1
           \<and> cooldownActive s' = cooldownActive summary
           \<and> cooldownUntil s' = cooldownUntil summary
           \<and> EvSendText ?report \<in> set (new_events w w')"
      by simp
  qed
qed

theorem classifier_accepts_typed_variant_only_witness:
  "(\<forall>m hosts. demo_429_error \<noteq> TwitterRateLimitError m hosts)
   \<and> rate_limit_pattern (message demo_429_error)
   \<and> \<not> isTwitterRateLimitError demo_429_error
   \<and> account_catch demo_env demo_config ''alice'' demo_state_cursor
        (createAccountSummary ''alice'') demo_429_error demo_world_cursor
      = (Inr ((createAccountSummary ''alice'')\<lparr>sum_failed := 1, sum_backfillDone := False\<rparr>),
         snd (account_catch demo_env demo_config ''alice'' demo_state_cursor
                (createAccountSummary ''alice'') demo_429_error demo_world_cursor))
   \<and> account_state (snd (account_catch demo_env demo_config ''alice'' demo_state_cursor
                            (createAccountSummary ''alice'') demo_429_error demo_world_cursor))
       = account_state demo_world_cursor
   \<and> EvSendText (formatFailureReport demo_429_error (''account:'' @ ''alice''))
        \<in> set (new_events demo_world_cursor
                 (snd (account_catch demo_env demo_config ''alice'' demo_state_cursor
                         (createAccountSummary ''alice'') demo_429_error demo_world_cursor)))"
proof -
  let ?ac = "account_catch demo_env demo_config ''alice'' demo_state_cursor
                (createAccountSummary ''alice'') demo_429_error demo_world_cursor"
  have h: "\<forall>m hosts. demo_429_error \<noteq> TwitterRateLimitError m hosts"
    by (simp add: demo_429_error_def)
  have p: "rate_limit_pattern (message demo_429_error)"
    by (simp add: rate_limit_pattern_def demo_429_error_def)
  note T = classifier_accepts_typed_variant_only[of demo_429_error demo_env demo_config
         "''alice''" demo_state_cursor "createAccountSummary ''alice''" demo_world_cursor]
  from T h have n: "\<not> isTwitterRateLimitError demo_429_error" by blast
  have f: "fst ?ac
      = Inr ((createAccountSummary ''alice'')\<lparr>sum_failed := 1, sum_backfillDone := False\<rparr>)"
    by (simp add: account_catch_def demo_429_error_def sendTextMessage_def ensureConnected_def
          demo_env_def demo_world_cursor_def demo_world_def demo_state_cursor_def)
  then have eq: "?ac
      = (Inr ((createAccountSummary ''alice'')\<lparr>sum_failed := 1, sum_backfillDone := False\<rparr>),
         snd ?ac)"
    by (metis prod.collapse)
  from T h have a: "account_state (snd ?ac) = account_state demo_world_cursor" by blast
  from T h eq
  have ev: "EvSendText (formatFailureReport demo_429_error (''account:'' @ ''alice''))
        \<in> set (new_events demo_world_cursor (snd ?ac))"
    by blast
  from h p n eq a ev show ?thesis by blast
qed

subsection \<open>Message ids of a group send\<close>

text \<open>
  Claim C10. After a successful group send for a post, the registry holds a row for the key
  of every sent file, and every row with such a key holds the one list of message ids that
  the send returned, with status \<^verbatim>\<open>uploaded\<close>. That list is the concatenation, over all the
  chunks of at most ten files into which the send list was cut, of the ids of the answers
  to the \<^verbatim>\<open>sendFile\<close> calls of the attempt that succeeded.
\<close>

theorem group_send_records_all_ids:
  assumes ml: "media_loop E C tweet user (media tweet)
                 \<lparr>uploaded = 0, skipped = 0, failed = 0\<rparr> [] w = ((None, res, files), w1)"
    and ne: "files \<noteq> []"
    and sd: "withRetry
               (sendTweetMediaGroup E
                  \<lparr>g_tweetUrl = tweetUrl tweet, g_username = user,
                   g_postedAt = postedAt tweet, g_mediaFiles = files\<rparr>) 2 w1 = (Inr ids, w2)"
  shows "(\<forall>f\<in>set files.
            (\<exists>r\<in>set (media_registry (snd (processTweet E C tweet user w))).
                rec_mediaKey r = mediaKey f)
          \<and> (\<forall>r\<in>set (media_registry (snd (processTweet E C tweet user w))).
                rec_mediaKey r = mediaKey f \<longrightarrow>
                  rec_telegramMessageIds r = ids \<and> rec_status r = Uploaded))
     \<and> concat (chunkArray files 10) = files
     \<and> (\<exists>results (wc::world). length results = length (chunkArray files 10)
            \<and> ids = concat (map result_messageIds results)
            \<and> (\<forall>k<length (chunkArray files 10). \<exists>cap.
                  toCaption E \<lparr>g_tweetUrl = tweetUrl tweet, g_username = user,
                    g_postedAt = postedAt tweet, g_mediaFiles = files\<rparr> k = Inr cap
                  \<and> sendFile_at E (tick wc + k) (map path (chunkArray files 10 ! k)) cap
                    = Inr (results ! k)))"
proof -
  let ?input = "\<lparr>g_tweetUrl = tweetUrl tweet, g_username = user,
                   g_postedAt = postedAt tweet, g_mediaFiles = files\<rparr>"
  let ?ml = "mark_loop E tweet user ids files res w2"
  have pt: "processTweet E C tweet user w = cleanup E files (fst ?ml) (snd ?ml)"
    using ml ne sd by (simp add: processTweet_def split: prod.splits)
  then have reg: "media_registry (snd (processTweet E C tweet user w)) = media_registry (snd ?ml)"
    by (simp add: registry_cleanup)
  have mk: "(\<forall>r\<in>set (media_registry (snd ?ml)).
         rec_mediaKey r \<in> {} \<union> mediaKey ` set files \<longrightarrow> sent_row tweet user ids r)
     \<and> mediaKey ` set files \<subseteq> rec_mediaKey ` set (media_registry (snd ?ml))"
    by (rule mark_loop_registry) simp
  have rows: "\<forall>f\<in>set files.
            (\<exists>r\<in>set (media_registry (snd (processTweet E C tweet user w))).
                rec_mediaKey r = mediaKey f)
          \<and> (\<forall>r\<in>set (media_registry (snd (processTweet E C tweet user w))).
                rec_mediaKey r = mediaKey f \<longrightarrow>
                  rec_telegramMessageIds r = ids \<and> rec_status r = Uploaded)"
  proof (rule ballI, rule conjI)
    fix f assume f: "f \<in> set files"
    with mk have "mediaKey f \<in> rec_mediaKey ` set (media_registry (snd ?ml))" by blast
    then show "\<exists>r\<in>set (media_registry (snd (processTweet E C tweet user w))).
                rec_mediaKey r = mediaKey f"
      unfolding reg by force
  next
    fix f assume f: "f \<in> set files"
    with mk show "\<forall>r\<in>set (media_registry (snd (processTweet E C tweet user w))).
                rec_mediaKey r = mediaKey f \<longrightarrow>
                  rec_telegramMessageIds r = ids \<and> rec_status r = Uploaded"
      unfolding reg by (auto simp add: sent_row_def)
  qed
  from sd obtain w0 where s0: "sendTweetMediaGroup E ?input w0 = (Inr ids, w2)"
    unfolding withRetry_def by (blast dest: withRetry_loop_Inr)
  then obtain wc where sc: "send_chunks E ?input (chunkArray files 10) 0 [] wc = (Inr ids, w2)"
    by (auto simp add: sendTweetMediaGroup_def split: prod.splits sum.splits)
  from send_chunks_ids[OF sc] obtain results where
    r: "length results = length (chunkArray files 10)"
       "ids = concat (map result_messageIds results)"
       "\<forall>k<length (chunkArray files 10). \<exists>cap. toCaption E ?input (0 + k) = Inr cap
             \<and> sendFile_at E (tick wc + k) (map path (chunkArray files 10 ! k)) cap
                 = Inr (results ! k)"
    by auto
  define Q where "Q rs wc' \<longleftrightarrow> length rs = length (chunkArray files 10)
            \<and> ids = concat (map result_messageIds rs)
            \<and> (\<forall>k<length (chunkArray files 10). \<exists>cap.
                  toCaption E ?input k = Inr cap
                  \<and> sendFile_at E (tick wc' + k) (map path (chunkArray files 10 ! k)) cap
                    = Inr (rs ! k))" for rs and wc' :: world
  have "Q results wc" unfolding Q_def using r by simp
  then have "\<exists>rs wc'. Q rs wc'" by blast
  then have "\<exists>results (wc::world). length results = length (chunkArray files 10)
            \<and> ids = concat (map result_messageIds results)
            \<and> (\<forall>k<length (chunkArray files 10). \<exists>cap.
                  toCaption E ?input k = Inr cap
                  \<and> sendFile_at E (tick wc + k) (map path (chunkArray files 10 ! k)) cap
                    = Inr (results ! k))"
    unfolding Q_def .
  moreover have "concat (chunkArray files 10) = files" by (rule chunkArray_concat) simp
  ultimately show ?thesis using rows by blast
qed

theorem group_send_records_all_ids_witness:
  "media_loop demo_env_ids demo_config demo_tweet2 ''alice'' (media demo_tweet2)
      \<lparr>uploaded = 0, skipped = 0, failed = 0\<rparr> [] demo_world
     = ((None, \<lparr>uploaded = 0, skipped = 0, failed = 0\<rparr>, [demo_file_b, demo_file_c]),
        snd (media_loop demo_env_ids demo_config demo_tweet2 ''alice''
               (media demo_tweet2) \<lparr>uploaded = 0, skipped = 0, failed = 0\<rparr> []
               demo_world))
   \<and> [demo_file_b, demo_file_c] \<noteq> []
   \<and> fst (withRetry
        (sendTweetMediaGroup demo_env_ids
           \<lparr>g_tweetUrl = tweetUrl demo_tweet2, g_username = ''alice'',
            g_postedAt = postedAt demo_tweet2, g_mediaFiles = [demo_file_b, demo_file_c]\<rparr>) 2
        (snd (media_loop demo_env_ids demo_config demo_tweet2 ''alice''
               (media demo_tweet2) \<lparr>uploaded = 0, skipped = 0, failed = 0\<rparr> []
               demo_world))) = Inr [''100'', ''101'']
   \<and> mediaKey demo_file_b \<noteq> mediaKey demo_file_c
   \<and> (\<exists>r\<in>set (media_registry
               (snd (processTweet demo_env_ids demo_config demo_tweet2 ''alice'' demo_world))).
          rec_mediaKey r = mediaKey demo_file_b
            \<and> rec_telegramMessageIds r = [''100'', ''101''] \<and> rec_status r = Uploaded)
   \<and> (\<exists>r\<in>set (media_registry
               (snd (processTweet demo_env_ids demo_config demo_tweet2 ''alice'' demo_world))).
          rec_mediaKey r = mediaKey demo_file_c
            \<and> rec_telegramMessageIds r = [''100'', ''101''] \<and> rec_status r = Uploaded)"
proof -
  let ?t = demo_tweet2
  let ?E = demo_env_ids
  let ?ml = "media_loop ?E demo_config ?t ''alice'' (media ?t)
      \<lparr>uploaded = 0, skipped = 0, failed = 0\<rparr> [] demo_world"
  let ?input = "\<lparr>g_tweetUrl = tweetUrl ?t, g_username = ''alice'',
            g_postedAt = postedAt ?t, g_mediaFiles = [demo_file_b, demo_file_c]\<rparr>"
  let ?sd = "withRetry (sendTweetMediaGroup ?E ?input) 2 (snd ?ml)"
  let ?reg = "media_registry (snd (processTweet ?E demo_config ?t ''alice'' demo_world))"
  have "fst ?ml = (None, \<lparr>uploaded = 0, skipped = 0, failed = 0\<rparr>, [demo_file_b, demo_file_c])"
    by (simp add: engine_defs demo_defs demo_env_ids_def demo_tweet2_def demo_file_b_def
          demo_file_c_def)
  then have ml: "?ml = ((None, \<lparr>uploaded = 0, skipped = 0, failed = 0\<rparr>,
                         [demo_file_b, demo_file_c]), snd ?ml)"
    by (metis prod.collapse)
  have ne: "[demo_file_b, demo_file_c] \<noteq> []" by simp
  have f: "fst ?sd = Inr [''100'', ''101'']"
    by (simp add: engine_defs report_defs demo_defs demo_env_ids_def demo_tweet2_def
          demo_file_b_def demo_file_c_def)
  then obtain w2 where sd: "?sd = (Inr [''100'', ''101''], w2)"
    by (cases ?sd) simp
  have kk: "mediaKey demo_file_b \<noteq> mediaKey demo_file_c"
    by (simp add: demo_file_b_def demo_file_c_def)
  from group_send_records_all_ids[OF ml ne sd]
  have all: "\<forall>f\<in>set [demo_file_b, demo_file_c].
            (\<exists>r\<in>set ?reg. rec_mediaKey r = mediaKey f)
          \<and> (\<forall>r\<in>set ?reg. rec_mediaKey r = mediaKey f \<longrightarrow>
                  rec_telegramMessageIds r = [''100'', ''101''] \<and> rec_status r = Uploaded)"
    by blast
  from all have b: "\<exists>r\<in>set ?reg. rec_mediaKey r = mediaKey demo_file_b
            \<and> rec_telegramMessageIds r = [''100'', ''101''] \<and> rec_status r = Uploaded"
    by auto
  from all have c: "\<exists>r\<in>set ?reg. rec_mediaKey r = mediaKey demo_file_c
            \<and> rec_telegramMessageIds r = [''100'', ''101''] \<and> rec_status r = Uploaded"
    by auto
  from ml ne f kk b c show ?thesis by blast
qed

end
